theory Spec2Isabelle
  imports Complex_Main "HOL-Library.Signed_Division"
begin

section \<open>Values of the language\<close>

text \<open>
  The program is JavaScript, so every function receives an arbitrary value. A number is
  a finite rational, one of the two infinities, or NaN; the finite numbers of the program
  are the rationals that a double represents. The two zeros are identified (they are equal
  under \<^verbatim>\<open>===\<close>).
\<close>

datatype jsnum = Fin rat | PInf | NInf | NaN

datatype jsval =
    JUndefined
  | JNull
  | JBool bool
  | JNum jsnum
  | JStr string
  | JArr "jsval list"
  | JObj "(string \<times> jsval) list"

text \<open>
  An exception carries its message. \<open>RangeError\<close> is what the engine throws when the
  call stack is exhausted, \<open>TypeError\<close> what a failed conversion throws.
\<close>

datatype js_error = Error string | RangeError string | TypeError string

fun message :: "js_error \<Rightarrow> string" where
  "message (Error m) = m"
| "message (RangeError m) = m"
| "message (TypeError m) = m"

definition stack_overflow :: js_error where
  "stack_overflow = RangeError ''Maximum call stack size exceeded''"

abbreviation jint :: "int \<Rightarrow> jsval" where
  "jint k \<equiv> JNum (Fin (of_int k))"

text \<open>
  \<^verbatim>\<open>Number.isInteger(v)\<close>: \<open>int_value v\<close> is \<open>Some k\<close> exactly when the test is true,
  and \<open>k\<close> is then the integer that \<open>v\<close> holds.
\<close>

fun int_value :: "jsval \<Rightarrow> int option" where
  "int_value (JNum (Fin q)) = (if of_int \<lfloor>q\<rfloor> = q then Some \<lfloor>q\<rfloor> else None)"
| "int_value _ = None"

subsection \<open>Rounding to a double\<close>

text \<open>
  The sum, product and quotient of two doubles are the exact result rounded to the
  nearest double, to the one with an even significand on a tie (IEEE 754, binary64). A
  double is \<open>m * 2 ^ e\<close> with \<open>m\<close> below \<open>2 ^ 53\<close> and \<open>e\<close> from \<open>-1074\<close> to \<open>971\<close>; a result
  that rounds to \<open>2 ^ 1024\<close> or more is an infinity.
\<close>

definition pow2 :: "int \<Rightarrow> rat" where
  "pow2 e = (if 0 \<le> e then 2 ^ nat e else 1 / 2 ^ nat (- e))"

text \<open>The integer part of the binary logarithm: of a positive natural, then of a positive rational.\<close>

function ilog2 :: "nat \<Rightarrow> int" where
  "ilog2 n = (if n < 2 then 0 else 1 + ilog2 (n div 2))"
  by pat_completeness auto
termination
  by (relation "measure (\<lambda>n. n)") auto

declare ilog2.simps [simp del]

definition clog2 :: "nat \<Rightarrow> int" where
  "clog2 m = (if m \<le> 1 then 0 else 1 + ilog2 (m - 1))"

definition flog2 :: "rat \<Rightarrow> int" where
  "flog2 x = (if 1 \<le> x then ilog2 (nat \<lfloor>x\<rfloor>) else - clog2 (nat \<lceil>1 / x\<rceil>))"

text \<open>The nearest integer, the even one on a tie.\<close>

definition round_even :: "rat \<Rightarrow> int" where
  "round_even y =
     (let f = \<lfloor>y\<rfloor>; r = y - of_int f
      in if r < 1 / 2 then f
         else if 1 / 2 < r then f + 1
         else if even f then f else f + 1)"

text \<open>
  \<open>fl x\<close> is the double nearest to \<open>x\<close>: the significand is rounded at the exponent of \<open>x\<close>,
  which is not below that of the subnormal numbers.
\<close>

definition fl :: "rat \<Rightarrow> jsnum" where
  "fl x =
     (if x = 0 then Fin 0
      else (let e = max (flog2 \<bar>x\<bar> - 52) (- 1074);
                y = of_int (round_even (\<bar>x\<bar> / pow2 e)) * pow2 e
            in if 2 ^ 1024 \<le> y then (if 0 < x then PInf else NInf)
               else Fin (sgn x * y)))"

subsection \<open>Arithmetic on numbers\<close>

fun num_add :: "jsnum \<Rightarrow> jsnum \<Rightarrow> jsnum" where
  "num_add (Fin x) (Fin y) = fl (x + y)"
| "num_add NaN _ = NaN"
| "num_add _ NaN = NaN"
| "num_add PInf NInf = NaN"
| "num_add NInf PInf = NaN"
| "num_add PInf _ = PInf"
| "num_add NInf _ = NInf"
| "num_add _ PInf = PInf"
| "num_add _ NInf = NInf"

text \<open>
  \<^verbatim>\<open>a % b\<close> on finite numbers: the remainder of the division truncated towards zero,
  so it has the sign of the dividend. It is not rounded: the remainder of two doubles is a
  double.
\<close>

definition rat_rem :: "rat \<Rightarrow> rat \<Rightarrow> rat" where
  "rat_rem x y = sgn x * (\<bar>x\<bar> - \<bar>y\<bar> * of_int \<lfloor>\<bar>x\<bar> / \<bar>y\<bar>\<rfloor>)"

fun num_rem :: "jsnum \<Rightarrow> jsnum \<Rightarrow> jsnum" where
  "num_rem (Fin x) (Fin y) = (if y = 0 then NaN else Fin (rat_rem x y))"
| "num_rem (Fin x) PInf = Fin x"
| "num_rem (Fin x) NInf = Fin x"
| "num_rem _ _ = NaN"

fun num_mul :: "jsnum \<Rightarrow> jsnum \<Rightarrow> jsnum" where
  "num_mul (Fin x) (Fin y) = fl (x * y)"
| "num_mul NaN _ = NaN"
| "num_mul _ NaN = NaN"
| "num_mul (Fin x) PInf = (if x = 0 then NaN else if 0 < x then PInf else NInf)"
| "num_mul (Fin x) NInf = (if x = 0 then NaN else if 0 < x then NInf else PInf)"
| "num_mul PInf (Fin y) = (if y = 0 then NaN else if 0 < y then PInf else NInf)"
| "num_mul NInf (Fin y) = (if y = 0 then NaN else if 0 < y then NInf else PInf)"
| "num_mul PInf PInf = PInf"
| "num_mul NInf NInf = PInf"
| "num_mul PInf NInf = NInf"
| "num_mul NInf PInf = NInf"

text \<open>
  Division never throws. A finite number divided by zero is an infinity or NaN; the sign
  of that infinity follows the sign of the zero, which this model does not have, so a
  zero divisor counts as positive.
\<close>

fun num_div :: "jsnum \<Rightarrow> jsnum \<Rightarrow> jsnum" where
  "num_div (Fin x) (Fin y) =
     (if y = 0 then (if x = 0 then NaN else if 0 < x then PInf else NInf)
      else fl (x / y))"
| "num_div NaN _ = NaN"
| "num_div _ NaN = NaN"
| "num_div (Fin x) PInf = Fin 0"
| "num_div (Fin x) NInf = Fin 0"
| "num_div PInf (Fin y) = (if 0 \<le> y then PInf else NInf)"
| "num_div NInf (Fin y) = (if 0 \<le> y then NInf else PInf)"
| "num_div _ _ = NaN"

text \<open>
  The conversion of a value to a number, applied by \<^verbatim>\<open>%\<close>, \<^verbatim>\<open>*\<close> and \<^verbatim>\<open>/\<close> to each
  operand. On strings, arrays and objects it is the engine's own parser and
  \<^verbatim>\<open>toString\<close> machinery, which is no part of this program: it is the parameter
  \<open>prim\<close>, and it may throw.
\<close>

type_synonym coercion = "jsval \<Rightarrow> js_error + jsnum"

fun ToNumber :: "coercion \<Rightarrow> jsval \<Rightarrow> js_error + jsnum" where
  "ToNumber prim JUndefined = Inr NaN"
| "ToNumber prim JNull = Inr (Fin 0)"
| "ToNumber prim (JBool b) = Inr (Fin (if b then 1 else 0))"
| "ToNumber prim (JNum n) = Inr n"
| "ToNumber prim v = prim v"

section \<open>The numeric kernel\<close>

subsection \<open>generateFibonacci\<close>

text \<open>
  \<^verbatim>\<open>fib[k]\<close> read as an operand of \<^verbatim>\<open>+\<close>: past the end the array yields
  \<^verbatim>\<open>undefined\<close>, which the addition turns into NaN.
\<close>

definition at_num :: "jsnum list \<Rightarrow> nat \<Rightarrow> jsnum" where
  "at_num xs k = (if k < length xs then xs ! k else NaN)"

text \<open>The \<^verbatim>\<open>for\<close> loop of \<^verbatim>\<open>generateFibonacci\<close>, from the index \<open>i\<close> on.\<close>

function fib_loop :: "nat \<Rightarrow> nat \<Rightarrow> jsnum list \<Rightarrow> jsnum list" where
  "fib_loop i n fib =
     (if i < n then fib_loop (i + 1) n (fib @ [num_add (at_num fib (i - 1)) (at_num fib (i - 2))])
      else fib)"
  by pat_completeness auto
termination
  by (relation "measure (\<lambda>(i, n, fib). n - i)") auto

declare fib_loop.simps [simp del]

definition generateFibonacci :: "jsval \<Rightarrow> js_error + jsval" where
  "generateFibonacci v =
     (case int_value v of
        None \<Rightarrow> Inl (Error ''Input must be a non-negative integer'')
      | Some n \<Rightarrow>
          if n < 0 then Inl (Error ''Input must be a non-negative integer'')
          else if n = 0 then Inr (JArr [])
          else if n = 1 then Inr (JArr [jint 0])
          else Inr (JArr (map JNum (fib_loop 2 (nat n) [Fin 0, Fin 1]))))"

text \<open>The Fibonacci numbers themselves, to say what the loop computes.\<close>

fun fibonacci :: "nat \<Rightarrow> int" where
  "fibonacci 0 = 0"
| "fibonacci (Suc 0) = 1"
| "fibonacci (Suc (Suc k)) = fibonacci (Suc k) + fibonacci k"

subsection \<open>isPrime and filterPrimes\<close>

text \<open>
  \<^verbatim>\<open>isPrime\<close> is only ever called by \<^verbatim>\<open>filterPrimes\<close>, after
  \<^verbatim>\<open>Number.isInteger\<close> has accepted the element, so its argument is an integer.
  \<^verbatim>\<open>num % i\<close> on integers is \<open>smod\<close>, the remainder with the sign of the dividend.
  The loop test \<^verbatim>\<open>i <= Math.sqrt(num)\<close> is \<open>le_sqrt\<close>, the comparison with the exact
  square root (\<open>le_sqrt_real\<close> below); of a negative number the root is NaN and the
  comparison false.
\<close>

definition le_sqrt :: "int \<Rightarrow> int \<Rightarrow> bool" where
  "le_sqrt i num = (0 \<le> num \<and> (i \<le> 0 \<or> i * i \<le> num))"

function isPrime_loop :: "int \<Rightarrow> int \<Rightarrow> bool" where
  "isPrime_loop i num =
     (if le_sqrt i num
      then (if num smod i = 0 then False else isPrime_loop (i + 2) num)
      else True)"
  by pat_completeness auto
termination
proof (relation "measure (\<lambda>(i, num). nat (num - i + 1))")
  show "wf (measure (\<lambda>(i, num). nat (num - i + 1)))"
    by simp
next
  fix i num :: int
  assume "le_sqrt i num"
  then have num: "0 \<le> num" and sq: "i \<le> 0 \<or> i * i \<le> num"
    by (simp_all add: le_sqrt_def)
  have "i \<le> num"
  proof (cases "i \<le> 0")
    case True
    with num show ?thesis by simp
  next
    case False
    then have "i \<le> i * i"
      using mult_left_mono [of 1 i i] by simp
    with sq False show ?thesis by linarith
  qed
  then show "((i + 2, num), (i, num)) \<in> measure (\<lambda>(i, num). nat (num - i + 1))"
    by simp
qed

declare isPrime_loop.simps [simp del]

definition isPrime :: "int \<Rightarrow> bool" where
  "isPrime num =
     (if num < 2 then False
      else if num = 2 then True
      else if num smod 2 = 0 then False
      else isPrime_loop 3 num)"

text \<open>\<^verbatim>\<open>Array.prototype.filter\<close> with a callback that may throw: the first throw ends it.\<close>

fun array_filter :: "(jsval \<Rightarrow> js_error + bool) \<Rightarrow> jsval list \<Rightarrow> js_error + jsval list" where
  "array_filter cb [] = Inr []"
| "array_filter cb (x # xs) =
     (case cb x of
        Inl e \<Rightarrow> Inl e
      | Inr keep \<Rightarrow>
          (case array_filter cb xs of
             Inl e \<Rightarrow> Inl e
           | Inr ys \<Rightarrow> Inr (if keep then x # ys else ys)))"

definition filterPrimes_cb :: "jsval \<Rightarrow> js_error + bool" where
  "filterPrimes_cb num =
     (case int_value num of
        None \<Rightarrow> Inl (Error ''All elements must be integers'')
      | Some k \<Rightarrow> Inr (isPrime k))"

definition filterPrimes :: "jsval \<Rightarrow> js_error + jsval" where
  "filterPrimes arr =
     (case arr of
        JArr xs \<Rightarrow>
          (case array_filter filterPrimes_cb xs of
             Inl e \<Rightarrow> Inl e
           | Inr ys \<Rightarrow> Inr (JArr ys))
      | _ \<Rightarrow> Inl (Error ''Input must be an array''))"

subsection \<open>gcd, calculateHCF and calculateLCM\<close>

definition js_rem :: "coercion \<Rightarrow> jsval \<Rightarrow> jsval \<Rightarrow> js_error + jsval" where
  "js_rem prim a b =
     (case ToNumber prim a of
        Inl e \<Rightarrow> Inl e
      | Inr x \<Rightarrow>
          (case ToNumber prim b of
             Inl e \<Rightarrow> Inl e
           | Inr y \<Rightarrow> Inr (JNum (num_rem x y))))"

definition js_mul :: "coercion \<Rightarrow> jsval \<Rightarrow> jsval \<Rightarrow> js_error + jsval" where
  "js_mul prim a b =
     (case ToNumber prim a of
        Inl e \<Rightarrow> Inl e
      | Inr x \<Rightarrow>
          (case ToNumber prim b of
             Inl e \<Rightarrow> Inl e
           | Inr y \<Rightarrow> Inr (JNum (num_mul x y))))"

definition js_div :: "coercion \<Rightarrow> jsval \<Rightarrow> jsval \<Rightarrow> js_error + jsval" where
  "js_div prim a b =
     (case ToNumber prim a of
        Inl e \<Rightarrow> Inl e
      | Inr x \<Rightarrow>
          (case ToNumber prim b of
             Inl e \<Rightarrow> Inl e
           | Inr y \<Rightarrow> Inr (JNum (num_div x y))))"

text \<open>
  \<^verbatim>\<open>gcd(a, b)\<close> recurses with no bound of its own, so it is a partial function: \<open>None\<close>
  is a recursion that never reaches \<^verbatim>\<open>b === 0\<close>. \<open>Some (Inl e)\<close> is a conversion
  that threw, \<open>Some (Inr r)\<close> the value returned.
\<close>

partial_function (option) gcd_js :: "coercion \<Rightarrow> jsval \<Rightarrow> jsval \<Rightarrow> (js_error + jsval) option" where
  "gcd_js prim a b =
     (if b = JNum (Fin 0) then Some (Inr a)
      else (case js_rem prim a b of
              Inl e \<Rightarrow> Some (Inl e)
            | Inr r \<Rightarrow> gcd_js prim b r))"

text \<open>
  A call of \<^verbatim>\<open>gcd\<close> seen from its caller: the engine ends a recursion without end by
  throwing its stack-overflow error.
\<close>

definition call_gcd :: "coercion \<Rightarrow> jsval \<Rightarrow> jsval \<Rightarrow> js_error + jsval" where
  "call_gcd prim a b =
     (case gcd_js prim a b of
        None \<Rightarrow> Inl stack_overflow
      | Some r \<Rightarrow> r)"

text \<open>
  \<^verbatim>\<open>arr.reduce(f)\<close> with no initial value, on a non-empty array: the first element is
  the first accumulator and the callback runs on the others, in order.
\<close>

fun array_reduce :: "(jsval \<Rightarrow> jsval \<Rightarrow> js_error + jsval) \<Rightarrow> jsval \<Rightarrow> jsval list \<Rightarrow> js_error + jsval" where
  "array_reduce f acc [] = Inr acc"
| "array_reduce f acc (x # xs) =
     (case f acc x of
        Inl e \<Rightarrow> Inl e
      | Inr acc' \<Rightarrow> array_reduce f acc' xs)"

definition hcf_cb :: "coercion \<Rightarrow> jsval \<Rightarrow> jsval \<Rightarrow> js_error + jsval" where
  "hcf_cb prim acc num =
     (case int_value num of
        None \<Rightarrow> Inl (Error ''All elements must be positive integers'')
      | Some k \<Rightarrow>
          if k \<le> 0 then Inl (Error ''All elements must be positive integers'')
          else call_gcd prim acc num)"

definition calculateHCF :: "coercion \<Rightarrow> jsval \<Rightarrow> js_error + jsval" where
  "calculateHCF prim arr =
     (case arr of
        JArr [] \<Rightarrow> Inl (Error ''Input must be a non-empty array'')
      | JArr (x # xs) \<Rightarrow> array_reduce (hcf_cb prim) x xs
      | _ \<Rightarrow> Inl (Error ''Input must be a non-empty array''))"

text \<open>The local \<^verbatim>\<open>lcm\<close>: the product first, then the call of \<^verbatim>\<open>gcd\<close>, then the quotient.\<close>

definition lcm_js :: "coercion \<Rightarrow> jsval \<Rightarrow> jsval \<Rightarrow> js_error + jsval" where
  "lcm_js prim a b =
     (case js_mul prim a b of
        Inl e \<Rightarrow> Inl e
      | Inr p \<Rightarrow>
          (case call_gcd prim a b of
             Inl e \<Rightarrow> Inl e
           | Inr g \<Rightarrow> js_div prim p g))"

definition lcm_cb :: "coercion \<Rightarrow> jsval \<Rightarrow> jsval \<Rightarrow> js_error + jsval" where
  "lcm_cb prim acc num =
     (case int_value num of
        None \<Rightarrow> Inl (Error ''All elements must be positive integers'')
      | Some k \<Rightarrow>
          if k \<le> 0 then Inl (Error ''All elements must be positive integers'')
          else lcm_js prim acc num)"

definition calculateLCM :: "coercion \<Rightarrow> jsval \<Rightarrow> js_error + jsval" where
  "calculateLCM prim arr =
     (case arr of
        JArr [] \<Rightarrow> Inl (Error ''Input must be a non-empty array'')
      | JArr (x # xs) \<Rightarrow> array_reduce (lcm_cb prim) x xs
      | _ \<Rightarrow> Inl (Error ''Input must be a non-empty array''))"

section \<open>The AI delegate\<close>

subsection \<open>Strings\<close>

text \<open>
  A string is a list of code units below 256. The white space of \<^verbatim>\<open>trim\<close> and of
  \<^verbatim>\<open>\s\<close> in that range: tab, line feed, vertical tab, form feed, carriage return,
  space and the no-break space.
\<close>

definition is_space :: "char \<Rightarrow> bool" where
  "is_space c = (c \<in> set [CHR 0x09, CHR 0x0A, CHR 0x0B, CHR 0x0C, CHR 0x0D, CHR '' '', CHR 0xA0])"

definition trim :: "string \<Rightarrow> string" where
  "trim s = rev (dropWhile is_space (rev (dropWhile is_space s)))"

text \<open>\<^verbatim>\<open>.replace(/\*\*/g, '')\<close>: the pairs of asterisks, matched from the left.\<close>

fun remove_bold :: "string \<Rightarrow> string" where
  "remove_bold (a # b # s) =
     (if a = CHR ''*'' \<and> b = CHR ''*'' then remove_bold s else a # remove_bold (b # s))"
| "remove_bold s = s"

text \<open>\<^verbatim>\<open>.replace(/c/g, '')\<close> for one character, and for the class of punctuation.\<close>

definition remove_char :: "char \<Rightarrow> string \<Rightarrow> string" where
  "remove_char c s = filter (\<lambda>x. x \<noteq> c) s"

definition punctuation :: "char list" where
  "punctuation = ''.,!?;:'' @ [CHR 0x27, CHR 0x22] @ ''()''"

definition remove_punctuation :: "string \<Rightarrow> string" where
  "remove_punctuation s = filter (\<lambda>x. x \<notin> set punctuation) s"

text \<open>
  \<^verbatim>\<open>.split(/[\s\n\r]+/)[0]\<close>: what stands before the first run of white space (the
  whole string when there is none, the empty string when it starts with one).
\<close>

definition first_word :: "string \<Rightarrow> string" where
  "first_word s = takeWhile (\<lambda>c. \<not> is_space c) s"

text \<open>
  The cleaning of the raw text inside \<^verbatim>\<open>getAIResponse\<close>, from the emptiness test on
  the raw text to the final check.
\<close>

definition strip_markers :: "string \<Rightarrow> string" where
  "strip_markers text =
     remove_punctuation (remove_char (CHR 0x60) (remove_char (CHR ''*'') (remove_bold text)))"

definition clean_response :: "string \<Rightarrow> js_error + string" where
  "clean_response text =
     (if text = [] \<or> trim text = [] then Inl (Error ''Empty response from AI'')
      else (let cleaned = first_word (trim (strip_markers text))
            in if cleaned = [] then Inl (Error ''Could not extract answer'')
               else Inr cleaned))"

subsection \<open>getAIResponse\<close>

text \<open>
  One use of the text-generation service, from \<^verbatim>\<open>getGenerativeModel\<close> to
  \<^verbatim>\<open>response.text()\<close>: it throws, or it answers without a response, or it yields a
  text. The service is a parameter: a function from the prompt to that outcome.
\<close>

datatype gen_outcome = Rejected string | NoResponse | Text string

definition prompt :: "string \<Rightarrow> string" where
  "prompt question =
     ''You must answer with only ONE single word. Question: '' @ question
       @ [CHR 0x0A, CHR 0x0A] @ ''Answer (one word only):''"

text \<open>The body of the \<^verbatim>\<open>try\<close> block.\<close>

definition ask :: "(string \<Rightarrow> gen_outcome) \<Rightarrow> string \<Rightarrow> js_error + string" where
  "ask gen question =
     (case gen (prompt question) of
        Rejected m \<Rightarrow> Inl (Error m)
      | NoResponse \<Rightarrow> Inl (Error ''No response from AI'')
      | Text t \<Rightarrow> clean_response t)"

text \<open>
  \<^verbatim>\<open>getAIResponse\<close> returns, with its result, how many times it has used the service.
\<close>

definition getAIResponse :: "(string \<Rightarrow> gen_outcome) \<Rightarrow> jsval \<Rightarrow> nat \<times> (js_error + jsval)" where
  "getAIResponse gen question =
     (case question of
        JStr q \<Rightarrow>
          if trim q = [] then (0, Inl (Error ''Question must be a non-empty string''))
          else (1, case ask gen q of
                     Inl e \<Rightarrow> Inl (Error ''AI API request failed'')
                   | Inr t \<Rightarrow> Inr (JStr t))
      | _ \<Rightarrow> (0, Inl (Error ''Question must be a non-empty string'')))"

section \<open>The request dispatcher\<close>

text \<open>
  What the handler reads from outside the request: the environment variable
  \<^verbatim>\<open>OFFICIAL_EMAIL\<close> (\<open>None\<close> when it is not set), the text-generation service and
  the engine's conversion of strings, arrays and objects to numbers.
\<close>

record env =
  OFFICIAL_EMAIL :: "string option"
  generateContent :: "string \<Rightarrow> gen_outcome"
  toNumber :: coercion

record response =
  status :: nat
  is_success :: bool
  official_email :: "string option"
  data :: "jsval option"
  error :: "string option"

definition failure :: "env \<Rightarrow> string \<Rightarrow> response" where
  "failure e msg =
     \<lparr>status = 400, is_success = False, official_email = OFFICIAL_EMAIL e,
      data = None, error = Some msg\<rparr>"

definition success :: "env \<Rightarrow> jsval \<Rightarrow> response" where
  "success e d =
     \<lparr>status = 200, is_success = True, official_email = OFFICIAL_EMAIL e,
      data = Some d, error = None\<rparr>"

definition validKeys :: "string list" where
  "validKeys = [''fibonacci'', ''prime'', ''lcm'', ''hcf'', ''AI'']"

text \<open>
  The body is a JSON object: its keys in order, each with its value. \<open>get\<close> is the
  property access \<^verbatim>\<open>body.k\<close>.
\<close>

type_synonym body = "(string \<times> jsval) list"

definition Object_keys :: "body \<Rightarrow> string list" where
  "Object_keys b = map fst b"

definition get :: "body \<Rightarrow> string \<Rightarrow> jsval" where
  "get b k = (case map_of b k of None \<Rightarrow> JUndefined | Some v \<Rightarrow> v)"

definition providedKeys :: "body \<Rightarrow> string list" where
  "providedKeys b = filter (\<lambda>key. key \<in> set validKeys) (Object_keys b)"

text \<open>
  The \<^verbatim>\<open>switch\<close>: the operation chosen by the key, with the number of uses of the
  service. \<open>None\<close> is the \<^verbatim>\<open>default\<close> branch.
\<close>

definition run :: "env \<Rightarrow> string \<Rightarrow> body \<Rightarrow> (nat \<times> (js_error + jsval)) option" where
  "run e key b =
     (if key = ''fibonacci'' then Some (0, generateFibonacci (get b ''fibonacci''))
      else if key = ''prime'' then Some (0, filterPrimes (get b ''prime''))
      else if key = ''lcm'' then Some (0, calculateLCM (toNumber e) (get b ''lcm''))
      else if key = ''hcf'' then Some (0, calculateHCF (toNumber e) (get b ''hcf''))
      else if key = ''AI'' then Some (getAIResponse (generateContent e) (get b ''AI''))
      else None)"

text \<open>
  The handler of \<^verbatim>\<open>POST /bfhl\<close>: the response, and the number of uses of the service.
  The \<^verbatim>\<open>catch\<close> turns what an operation throws into a response.
\<close>

definition bfhl :: "env \<Rightarrow> body \<Rightarrow> nat \<times> response" where
  "bfhl e b =
     (case providedKeys b of
        [] \<Rightarrow> (0, failure e ''Request must contain exactly one of: fibonacci, prime, lcm, hcf, AI'')
      | [key] \<Rightarrow>
          (case run e key b of
             None \<Rightarrow> (0, failure e ''Invalid key provided'')
           | Some (calls, Inl err) \<Rightarrow> (calls, failure e (message err))
           | Some (calls, Inr d) \<Rightarrow> (calls, success e d))
      | _ \<Rightarrow> (0, failure e ''Request must contain exactly one key, found multiple''))"

section \<open>Auxiliary definitions\<close>

text \<open>
  The sequence that the loop builds: 0, 1, and then the sum of the language of the two
  elements before. \<open>element r i\<close> reads \<^verbatim>\<open>r[i]\<close> in the array that a call returned.
\<close>

fun dfib :: "nat \<Rightarrow> jsnum" where
  "dfib 0 = Fin 0"
| "dfib (Suc 0) = Fin 1"
| "dfib (Suc (Suc k)) = num_add (dfib (Suc k)) (dfib k)"

definition dfibs :: "nat \<Rightarrow> jsnum list" where
  "dfibs n = map dfib [0..<n]"

definition element :: "js_error + jsval \<Rightarrow> nat \<Rightarrow> jsval" where
  "element r i =
     (case r of
        Inr (JArr xs) \<Rightarrow> (if i < length xs then xs ! i else JUndefined)
      | _ \<Rightarrow> JUndefined)"

text \<open>The Fibonacci numbers by iteration, to compute one of them.\<close>

fun fib_iter :: "nat \<Rightarrow> int \<Rightarrow> int \<Rightarrow> int" where
  "fib_iter 0 a b = a"
| "fib_iter (Suc n) a b = fib_iter n b (a + b)"

text \<open>
  The recursive Euclidean algorithm on integers, in the words of the specification:
  \<open>gcd(a, 0) = a\<close>, and otherwise \<open>gcd(a, b) = gcd(b, a % b)\<close> with the remainder of the
  language.
\<close>

function euclid :: "int \<Rightarrow> int \<Rightarrow> int" where
  "euclid a b = (if b = 0 then a else euclid b (a smod b))"
  by pat_completeness auto
termination
proof (relation "measure (\<lambda>(a, b). nat \<bar>b\<bar>)")
  show "wf (measure (\<lambda>(a, b). nat \<bar>b\<bar>))"
    by simp
next
  fix a b :: int
  assume "b \<noteq> 0"
  then have "\<bar>a smod b\<bar> < \<bar>b\<bar>"
    using smod_int_range [of b a] by auto
  then show "((b, a smod b), (a, b)) \<in> measure (\<lambda>(a, b). nat \<bar>b\<bar>)"
    by simp
qed

declare euclid.simps [simp del]

text \<open>The step of the specification's fold for the least common multiple.\<close>

definition int_lcm :: "int \<Rightarrow> int \<Rightarrow> int" where
  "int_lcm a b = a * b div euclid a b"

text \<open>
  The products of the fold for the least common multiple stay below \<open>2 ^ 53\<close>, where the
  integers are doubles and the arithmetic on them is exact.
\<close>

fun lcm_exact :: "int \<Rightarrow> int list \<Rightarrow> bool" where
  "lcm_exact acc [] = True"
| "lcm_exact acc (k # ks) = (\<bar>acc * k\<bar> < 2 ^ 53 \<and> lcm_exact (int_lcm acc k) ks)"

text \<open>
  A conversion under which no string, array or object denotes a number. It stands for
  the engine's conversion in the closed examples, none of which converts such a value.
\<close>

definition no_numeric :: coercion where
  "no_numeric v = Inr NaN"

text \<open>The characters that the cleaning removes: asterisk, backtick and the punctuation.\<close>

definition is_marker :: "char \<Rightarrow> bool" where
  "is_marker c = (c = CHR ''*'' \<or> c = CHR 0x60 \<or> c \<in> set punctuation)"

text \<open>
  For the closed examples: a service that answers every prompt with the same text, one
  that always throws, and an environment around a service.
\<close>

definition answers :: "string \<Rightarrow> string \<Rightarrow> gen_outcome" where
  "answers t p = Text t"

definition refuses :: "string \<Rightarrow> gen_outcome" where
  "refuses p = Rejected ''quota exceeded''"

definition sample_env :: "(string \<Rightarrow> gen_outcome) \<Rightarrow> env" where
  "sample_env gen =
     \<lparr>OFFICIAL_EMAIL = Some ''someone@example.com'', generateContent = gen, toNumber = no_numeric\<rparr>"

section \<open>Properties\<close>

subsection \<open>Rounding\<close>

lemma ilog2_less: "n < 2 ^ m \<Longrightarrow> 0 < m \<Longrightarrow> ilog2 n < int m"
proof (induction n arbitrary: m rule: ilog2.induct)
  case (1 n)
  show ?case
  proof (cases "n < 2")
    case True
    with "1.prems" show ?thesis by (subst ilog2.simps) simp
  next
    case False
    from "1.prems" obtain m' where m: "m = Suc m'" by (cases m) auto
    with "1.prems" have "n div 2 < 2 ^ m'" by auto
    moreover from False this have "0 < m'" by (cases m') auto
    ultimately have "ilog2 (n div 2) < int m'" using "1.IH" [OF False] by simp
    with False m show ?thesis by (subst ilog2.simps) simp
  qed
qed

lemma round_even_int: "round_even (of_int k) = k"
  by (simp add: round_even_def)

lemma flog2_int_le:
  assumes "0 < k" "k < 2 ^ 53"
  shows "flog2 (of_int k) \<le> 52"
proof -
  have "nat k < 2 ^ 53" using assms by (simp add: nat_less_iff)
  then have "ilog2 (nat k) < int 53" by (rule ilog2_less) simp
  with assms(1) show ?thesis by (simp add: flog2_def)
qed

text \<open>An integer below \<open>2 ^ 53\<close> in absolute value is a double: rounding leaves it as it is.\<close>

lemma fl_pos_int:
  assumes "0 < k" "k < 2 ^ 53"
  shows "fl (of_int k) = Fin (of_int k)"
proof -
  define e where "e = max (flog2 \<bar>rat_of_int k\<bar> - 52) (- 1074)"
  have a: "\<bar>rat_of_int k\<bar> = of_int k" using assms by simp
  have e: "e \<le> 0" "- 1074 \<le> e"
    using flog2_int_le [OF assms] by (simp_all add: e_def a)
  then have p: "pow2 e = 1 / 2 ^ nat (- e)"
    by (cases "e = 0") (simp_all add: pow2_def)
  have q: "\<bar>rat_of_int k\<bar> / pow2 e = of_int (k * 2 ^ nat (- e))"
    by (simp add: a p)
  have y: "of_int (round_even (\<bar>rat_of_int k\<bar> / pow2 e)) * pow2 e = of_int k"
    unfolding q round_even_int by (simp add: p)
  have "rat_of_int k < 2 ^ 53"
    using assms(2) by (metis of_int_less_iff of_int_numeral of_int_power)
  also have "\<dots> < 2 ^ 1024" by (rule power_strict_increasing) simp_all
  finally have small: "\<not> 2 ^ 1024 \<le> rat_of_int k" by simp
  have "fl (of_int k) = Fin (sgn (rat_of_int k) * of_int k)"
    using assms(1) small unfolding fl_def Let_def e_def [symmetric] y by simp
  with assms(1) show ?thesis by simp
qed

lemma fl_neg:
  "fl (- x) = (case fl x of Fin y \<Rightarrow> Fin (- y) | PInf \<Rightarrow> NInf | NInf \<Rightarrow> PInf | NaN \<Rightarrow> NaN)"
  by (cases x "0::rat" rule: linorder_cases) (auto simp: fl_def Let_def)

lemma fl_int:
  assumes "\<bar>k\<bar> < 2 ^ 53"
  shows "fl (of_int k) = Fin (of_int k)"
proof (cases k "0::int" rule: linorder_cases)
  case less
  with assms have "fl (of_int (- k)) = Fin (of_int (- k))" by (intro fl_pos_int) simp_all
  then have "fl (- rat_of_int k) = Fin (- rat_of_int k)" by simp
  then show ?thesis by (simp add: fl_neg split: jsnum.splits)
next
  case equal
  then show ?thesis by (simp add: fl_def)
next
  case greater
  with assms show ?thesis by (intro fl_pos_int) simp_all
qed

text \<open>Rules that evaluate \<open>fl\<close> on a numeral.\<close>

lemma floor_numeral_div:
  "\<lfloor>(numeral a :: rat) / numeral b\<rfloor> = numeral a div numeral b"
  using floor_divide_of_int_eq [of "numeral a" "numeral b", where ?'a = rat] by simp

lemma ceiling_numeral_div:
  "\<lceil>(numeral a :: rat) / numeral b\<rceil> = - (- numeral a div numeral b)"
  using floor_divide_of_int_eq [of "- numeral a" "numeral b", where ?'a = rat]
  by (simp add: ceiling_def)

lemmas fl_eval = fl_def flog2_def clog2_def round_even_def pow2_def Let_def ilog2.simps
  floor_numeral_div ceiling_numeral_div

lemma fl_examples:
  "fl 14472334024676221 = Fin 14472334024676220"
  "fl (94906267 * 94906267) = Fin 9007199515875288"
  "fl (9007199515875288 / 94906267) = Fin (6369051764850687 / 67108864)"
  "fl (1 / 3) = Fin (6004799503160661 / 18014398509481984)"
  by (simp_all add: fl_eval)

subsection \<open>generateFibonacci\<close>

lemma length_dfibs: "length (dfibs n) = n"
  by (simp add: dfibs_def)

lemma dfibs_nth: "k < n \<Longrightarrow> dfibs n ! k = dfib k"
  by (simp add: dfibs_def)

lemma dfibs_Suc: "dfibs (Suc n) = dfibs n @ [dfib n]"
  by (simp add: dfibs_def)

lemma fib_loop_dfibs:
  "2 \<le> i \<Longrightarrow> i \<le> n \<Longrightarrow> fib_loop i n (dfibs i) = dfibs n"
proof (induction i n "dfibs i" rule: fib_loop.induct)
  case (1 i n)
  show ?case
  proof (cases "i < n")
    case True
    from \<open>2 \<le> i\<close> obtain j where j: "i = Suc (Suc j)"
      by (metis Suc_le_D numeral_2_eq_2 Suc_le_mono le_Suc_ex add_2_eq_Suc)
    have a: "at_num (dfibs i) (i - 1) = dfib (Suc j)"
      by (simp add: j at_num_def length_dfibs dfibs_nth)
    have b: "at_num (dfibs i) (i - 2) = dfib j"
      by (simp add: j at_num_def length_dfibs dfibs_nth)
    have "dfibs (i + 1) = dfibs i @ [dfib i]"
      using dfibs_Suc [of i] by simp
    then have step: "dfibs i @ [num_add (at_num (dfibs i) (i - 1)) (at_num (dfibs i) (i - 2))] = dfibs (i + 1)"
      unfolding a b by (simp add: j)
    have "fib_loop (i + 1) n (dfibs (i + 1)) = dfibs n"
      using "1.hyps" [OF True] step "1.prems" True by simp
    then show ?thesis
      using True step by (subst fib_loop.simps) simp
  next
    case False
    with "1.prems" have "i = n" by simp
    then show ?thesis by (subst fib_loop.simps) simp
  qed
qed

lemma int_value_jint [simp]: "int_value (jint k) = Some k"
  by simp

lemma int_value_Some: "int_value v = Some k \<longleftrightarrow> v = jint k"
  by (cases v rule: int_value.cases) auto

lemma generateFibonacci_nat:
  "generateFibonacci (jint (int n)) = Inr (JArr (map JNum (dfibs n)))"
proof -
  consider "n = 0" | "n = 1" | "2 \<le> n" by linarith
  then show ?thesis
  proof cases
    case 1 then show ?thesis by (simp add: generateFibonacci_def dfibs_def)
  next
    case 2 then show ?thesis by (simp add: generateFibonacci_def dfibs_def)
  next
    case 3
    have "dfibs 2 = [Fin 0, Fin 1]" by (simp add: dfibs_def numeral_2_eq_2)
    with fib_loop_dfibs [of 2 n] 3 have "fib_loop 2 n [Fin 0, Fin 1] = dfibs n" by simp
    with 3 show ?thesis by (simp add: generateFibonacci_def)
  qed
qed

lemma fib_iter_fibonacci:
  "fib_iter n (fibonacci k) (fibonacci (Suc k)) = fibonacci (n + k)"
proof (induction n arbitrary: k)
  case 0
  show ?case by simp
next
  case (Suc n)
  have "fib_iter (Suc n) (fibonacci k) (fibonacci (Suc k))
      = fib_iter n (fibonacci (Suc k)) (fibonacci (Suc (Suc k)))"
    by (simp add: add.commute)
  also have "\<dots> = fibonacci (n + Suc k)" by (rule Suc.IH)
  finally show ?case by simp
qed

lemma fib_iter_values:
  "fib_iter 77 0 1 = 5527939700884757" "fib_iter 78 0 1 = 8944394323791464"
  by (simp_all add: eval_nat_numeral)

lemma fibonacci_values:
  "fibonacci 77 = 5527939700884757" "fibonacci 78 = 8944394323791464"
proof -
  have "fib_iter n 0 1 = fibonacci n" for n
    using fib_iter_fibonacci [of n 0] by simp
  from this [of 77, symmetric] this [of 78, symmetric]
  show "fibonacci 77 = 5527939700884757" "fibonacci 78 = 8944394323791464"
    by (simp_all only: fib_iter_values)
qed

lemma fibonacci_nonneg: "0 \<le> fibonacci k"
  by (induction k rule: fibonacci.induct) simp_all

lemma fibonacci_mono: "k \<le> m \<Longrightarrow> fibonacci k \<le> fibonacci m"
proof (induction m)
  case 0
  then show ?case by simp
next
  case (Suc m)
  have step: "fibonacci m \<le> fibonacci (Suc m)"
    using fibonacci_nonneg [of "m - 1"] by (cases m) simp_all
  show ?case
  proof (cases "k = Suc m")
    case True
    then show ?thesis by simp
  next
    case False
    with Suc.prems have "k \<le> m" by simp
    with Suc.IH step show ?thesis by simp
  qed
qed

lemma fibonacci_small: "k \<le> 78 \<Longrightarrow> \<bar>fibonacci k\<bar> < 2 ^ 53"
  using fibonacci_mono [of k 78] fibonacci_nonneg [of k] by (simp add: fibonacci_values)

text \<open>Up to the index 78 the elements are the Fibonacci numbers themselves.\<close>

lemma dfib_exact: "k \<le> 78 \<Longrightarrow> dfib k = Fin (of_int (fibonacci k))"
proof (induction k rule: dfib.induct)
  case 1
  show ?case by simp
next
  case 2
  show ?case by simp
next
  case (3 k)
  then have "dfib (Suc (Suc k)) = fl (of_int (fibonacci (Suc (Suc k))))"
    by simp
  with fl_int [OF fibonacci_small [OF "3.prems"]] show ?case by simp
qed

lemma dfibs_exact: "n \<le> 79 \<Longrightarrow> dfibs n = map (\<lambda>k. Fin (of_int (fibonacci k))) [0..<n]"
  unfolding dfibs_def by (rule map_cong) (simp_all add: dfib_exact)

lemma dfib_79: "dfib 79 = Fin 14472334024676220"
proof -
  have "dfib (Suc (Suc 77)) = num_add (dfib (Suc 77)) (dfib 77)"
    by (rule dfib.simps)
  moreover have "Suc (Suc 77) = 79" "Suc 77 = 78" by simp_all
  ultimately have "dfib 79 = num_add (dfib 78) (dfib 77)"
    by (simp only:)
  also have "\<dots> = fl (8944394323791464 + 5527939700884757)"
    by (simp add: dfib_exact fibonacci_values)
  also have "\<dots> = Fin 14472334024676220"
    using fl_examples(1) by simp
  finally show ?thesis .
qed

text \<open>
  C4, as stated, has every element from the third on equal to the sum of the two before it,
  for every \<open>n\<close>. The sums are sums of doubles: in the result for \<open>n = 80\<close> the last element is
  14472334024676220, while the two before it add up to 14472334024676221.
\<close>

theorem fibonacci_rounding_counterexample:
  "element (generateFibonacci (jint 80)) 77 = jint 5527939700884757
   \<and> element (generateFibonacci (jint 80)) 78 = jint 8944394323791464
   \<and> element (generateFibonacci (jint 80)) 79 = jint 14472334024676220
   \<and> (5527939700884757::int) + 8944394323791464 = 14472334024676221"
proof -
  have r: "generateFibonacci (JNum (Fin 80)) = Inr (JArr (map JNum (dfibs 80)))"
    using generateFibonacci_nat [of 80] by simp
  have "dfib 77 = Fin 5527939700884757" "dfib 78 = Fin 8944394323791464"
    by (simp_all add: dfib_exact fibonacci_values)
  then show ?thesis
    by (simp add: r element_def length_dfibs dfibs_nth dfib_79)
qed

text \<open>
  C4, amended. For every integer \<open>n \<ge> 0\<close>, \<^verbatim>\<open>generateFibonacci(n)\<close> returns a sequence of exactly
  \<open>n\<close> numbers that begins 0, 1 and in which every element from the third on is the sum of
  the two before it as the language computes it, rounded to a double. For \<open>n \<le> 79\<close> the
  elements are integers and every such sum is exact. 0 yields the empty sequence and 1
  yields \<open>[0]\<close>. Every input that is not a non-negative integer fails with the message of
  the validation.
\<close>

theorem generateFibonacci_doubles:
  "(\<exists>xs. generateFibonacci (jint (int n)) = Inr (JArr (map JNum xs))
      \<and> length xs = n
      \<and> (1 \<le> n \<longrightarrow> xs ! 0 = Fin 0)
      \<and> (2 \<le> n \<longrightarrow> xs ! 1 = Fin 1)
      \<and> (\<forall>i. 2 \<le> i \<and> i < n \<longrightarrow> xs ! i = num_add (xs ! (i - 1)) (xs ! (i - 2))))
   \<and> (n \<le> 79 \<longrightarrow>
        (\<exists>xs. generateFibonacci (jint (int n)) = Inr (JArr (map jint xs))
          \<and> length xs = n
          \<and> (1 \<le> n \<longrightarrow> xs ! 0 = 0)
          \<and> (2 \<le> n \<longrightarrow> xs ! 1 = 1)
          \<and> (\<forall>i. 2 \<le> i \<and> i < n \<longrightarrow> xs ! i = xs ! (i - 1) + xs ! (i - 2))))
   \<and> generateFibonacci (jint 0) = Inr (JArr [])
   \<and> generateFibonacci (jint 1) = Inr (JArr [jint 0])
   \<and> ((\<forall>k. 0 \<le> k \<longrightarrow> v \<noteq> jint k) \<longrightarrow>
        generateFibonacci v = Inl (Error ''Input must be a non-negative integer''))"
proof (intro conjI impI)
  have split: "\<exists>j. i = Suc (Suc j)" if "2 \<le> i" for i :: nat
    using that by (metis Suc_le_D numeral_2_eq_2 Suc_le_mono le_Suc_ex add_2_eq_Suc)
  have "dfibs n ! i = num_add (dfibs n ! (i - 1)) (dfibs n ! (i - 2))" if "2 \<le> i \<and> i < n" for i
  proof -
    from that split obtain j where j: "i = Suc (Suc j)" by blast
    with that show ?thesis by (simp add: dfibs_nth)
  qed
  moreover have "1 \<le> n \<longrightarrow> dfibs n ! 0 = Fin 0" "2 \<le> n \<longrightarrow> dfibs n ! 1 = Fin 1"
    by (simp_all add: dfibs_nth)
  ultimately show "\<exists>xs. generateFibonacci (jint (int n)) = Inr (JArr (map JNum xs))
      \<and> length xs = n
      \<and> (1 \<le> n \<longrightarrow> xs ! 0 = Fin 0)
      \<and> (2 \<le> n \<longrightarrow> xs ! 1 = Fin 1)
      \<and> (\<forall>i. 2 \<le> i \<and> i < n \<longrightarrow> xs ! i = num_add (xs ! (i - 1)) (xs ! (i - 2)))"
    using generateFibonacci_nat [of n] length_dfibs [of n]
    by (intro exI [of _ "dfibs n"]) simp
  show "generateFibonacci (jint 0) = Inr (JArr [])"
    by (simp add: generateFibonacci_def)
  show "generateFibonacci (jint 1) = Inr (JArr [jint 0])"
    by (simp add: generateFibonacci_def)
  show "\<exists>xs. generateFibonacci (jint (int n)) = Inr (JArr (map jint xs))
          \<and> length xs = n
          \<and> (1 \<le> n \<longrightarrow> xs ! 0 = 0)
          \<and> (2 \<le> n \<longrightarrow> xs ! 1 = 1)
          \<and> (\<forall>i. 2 \<le> i \<and> i < n \<longrightarrow> xs ! i = xs ! (i - 1) + xs ! (i - 2))"
    if n: "n \<le> 79"
  proof -
    let ?xs = "map fibonacci [0..<n]"
    have "map JNum (dfibs n) = map jint ?xs"
      by (simp add: dfibs_exact [OF n])
    then have res: "generateFibonacci (jint (int n)) = Inr (JArr (map jint ?xs))"
      by (simp only: generateFibonacci_nat)
    have rec: "?xs ! i = ?xs ! (i - 1) + ?xs ! (i - 2)" if "2 \<le> i \<and> i < n" for i
    proof -
      from that split obtain j where j: "i = Suc (Suc j)" by blast
      with that show ?thesis by simp
    qed
    show ?thesis
      using res rec by (intro exI [of _ ?xs]) simp
  qed
  assume v: "\<forall>k. 0 \<le> k \<longrightarrow> v \<noteq> jint k"
  show "generateFibonacci v = Inl (Error ''Input must be a non-negative integer'')"
  proof (cases "int_value v")
    case None
    then show ?thesis by (simp add: generateFibonacci_def)
  next
    case (Some k)
    then have "v = jint k" by (simp add: int_value_Some)
    with v have "\<not> 0 \<le> k" by blast
    then have "k < 0" by simp
    with Some show ?thesis by (simp add: generateFibonacci_def)
  qed
qed

theorem generateFibonacci_doubles_witness:
  "generateFibonacci (jint 5) = Inr (JArr [jint 0, jint 1, jint 1, jint 2, jint 3])
   \<and> generateFibonacci (JNum (Fin (5 / 2))) = Inl (Error ''Input must be a non-negative integer'')"
proof -
  have v: "\<forall>k. 0 \<le> k \<longrightarrow> JNum (Fin (5 / 2)) \<noteq> jint k"
  proof (intro allI impI notI)
    fix k :: int
    assume "JNum (Fin (5 / 2)) = jint k"
    then have "(5::rat) / 2 = of_int k" by simp
    then have "(5::rat) = of_int (2 * k)" by simp
    then have "(5::int) = 2 * k" by (metis of_int_eq_iff of_int_numeral)
    then show False by presburger
  qed
  have n: "(5::nat) \<le> 79" by simp
  from generateFibonacci_doubles [of 5 "JNum (Fin (5 / 2))"] v n
  obtain xs where xs: "generateFibonacci (jint (int 5)) = Inr (JArr (map jint xs))"
      "length xs = 5" "xs ! 0 = 0" "xs ! 1 = 1"
      "\<forall>i. 2 \<le> i \<and> i < 5 \<longrightarrow> xs ! i = xs ! (i - 1) + xs ! (i - 2)"
    and bad: "generateFibonacci (JNum (Fin (5 / 2))) = Inl (Error ''Input must be a non-negative integer'')"
    by auto
  from xs(5) have "xs ! 2 = xs ! 1 + xs ! 0" "xs ! 3 = xs ! 2 + xs ! 1" "xs ! 4 = xs ! 3 + xs ! 2"
    by (simp_all add: numeral_2_eq_2 numeral_3_eq_3)
  with xs(3,4) have v: "xs ! 0 = 0" "xs ! 1 = 1" "xs ! 2 = 1" "xs ! 3 = 2" "xs ! 4 = 3"
    by simp_all
  have "xs = [xs ! 0, xs ! 1, xs ! 2, xs ! 3, xs ! 4]"
    using xs(2) by (intro nth_equalityI) (auto simp: nth_Cons' less_Suc_eq numeral_eq_Suc)
  with v have "xs = [0, 1, 1, 2, 3]" by simp
  with xs(1) bad show ?thesis by simp
qed

lemma generateFibonacci_5:
  "generateFibonacci (jint 5) = Inr (JArr [jint 0, jint 1, jint 1, jint 2, jint 3])"
proof -
  have "map fibonacci [0..<5] = [0, 1, 1, 2, 3]"
    by (simp add: eval_nat_numeral upt_rec)
  then have "dfibs 5 = [Fin 0, Fin 1, Fin 1, Fin 2, Fin 3]"
    using dfibs_exact [of 5] map_map [of "\<lambda>k. Fin (rat_of_int k)" fibonacci "[0..<5]"]
    by (simp add: comp_def)
  with generateFibonacci_nat [of 5] show ?thesis by simp
qed

subsection \<open>isPrime and filterPrimes\<close>

lemma le_sqrt_real:
  "0 \<le> num \<Longrightarrow> le_sqrt i num \<longleftrightarrow> real_of_int i \<le> sqrt (real_of_int num)"
proof (cases "i \<le> 0")
  case True
  assume "0 \<le> num"
  with True show ?thesis
    by (auto simp: le_sqrt_def intro: order_trans [of _ 0])
next
  case False
  assume num: "0 \<le> num"
  from False have "real_of_int i = sqrt (real_of_int (i * i))"
    by (simp add: real_sqrt_mult)
  then have "real_of_int i \<le> sqrt (real_of_int num) \<longleftrightarrow> real_of_int (i * i) \<le> real_of_int num"
    by (simp only: real_sqrt_le_iff)
  with num False show ?thesis
    by (simp add: le_sqrt_def del: of_int_mult)
qed

lemma smod_pos: "0 \<le> a \<Longrightarrow> 0 < b \<Longrightarrow> (a::int) smod b = a mod b"
  by (cases "a = 0") (simp_all add: smod_int_alt_def)

lemma isPrime_loop_iff:
  "odd num \<Longrightarrow> odd i \<Longrightarrow> 3 \<le> i \<Longrightarrow> 0 \<le> num \<Longrightarrow>
   isPrime_loop i num \<longleftrightarrow> (\<forall>d. i \<le> d \<and> d * d \<le> num \<longrightarrow> \<not> d dvd num)"
proof (induction i num rule: isPrime_loop.induct)
  case (1 i num)
  show ?case
  proof (cases "le_sqrt i num")
    case False
    with "1.prems" have big: "num < i * i" by (simp add: le_sqrt_def)
    have "num < d * d" if "i \<le> d" for d
    proof -
      from that "1.prems" have "i * i \<le> d * d" by (intro mult_mono) simp_all
      with big show ?thesis by simp
    qed
    then have "\<forall>d. i \<le> d \<and> d * d \<le> num \<longrightarrow> \<not> d dvd num" by force
    with False show ?thesis by (subst isPrime_loop.simps) simp
  next
    case True
    with "1.prems" have sq: "i * i \<le> num" by (simp add: le_sqrt_def)
    show ?thesis
    proof (cases "num smod i = 0")
      case z: True
      with "1.prems" have "i dvd num" by (simp add: smod_pos dvd_eq_mod_eq_0)
      with sq have "\<not> (\<forall>d. i \<le> d \<and> d * d \<le> num \<longrightarrow> \<not> d dvd num)" by blast
      with True z show ?thesis by (subst isPrime_loop.simps) simp
    next
      case nz: False
      with "1.prems" have ni: "\<not> i dvd num" by (simp add: smod_pos dvd_eq_mod_eq_0)
      from "1.prems" have "even (i + 1)" by simp
      with "1.prems" have ni1: "\<not> (i + 1) dvd num" using dvd_trans by blast
      have IH: "isPrime_loop (i + 2) num \<longleftrightarrow> (\<forall>d. i + 2 \<le> d \<and> d * d \<le> num \<longrightarrow> \<not> d dvd num)"
        using "1.IH" [OF True nz] "1.prems" by simp
      have "(\<forall>d. i \<le> d \<and> d * d \<le> num \<longrightarrow> \<not> d dvd num) \<longleftrightarrow>
            (\<forall>d. i + 2 \<le> d \<and> d * d \<le> num \<longrightarrow> \<not> d dvd num)"
      proof (intro iffI allI impI)
        fix d assume a: "\<forall>d. i \<le> d \<and> d * d \<le> num \<longrightarrow> \<not> d dvd num" and "i + 2 \<le> d \<and> d * d \<le> num"
        then show "\<not> d dvd num" by simp
      next
        fix d assume a: "\<forall>d. i + 2 \<le> d \<and> d * d \<le> num \<longrightarrow> \<not> d dvd num" and d: "i \<le> d \<and> d * d \<le> num"
        then consider "d = i" | "d = i + 1" | "i + 2 \<le> d" by linarith
        then show "\<not> d dvd num"
          using ni ni1 a d by cases simp_all
      qed
      with IH True nz show ?thesis by (subst isPrime_loop.simps) simp
    qed
  qed
qed

lemma isPrime_iff_square:
  "isPrime x \<longleftrightarrow> 2 \<le> x \<and> (\<forall>d. 2 \<le> d \<and> d * d \<le> x \<longrightarrow> \<not> d dvd x)"
proof -
  consider "x < 2" | "x = 2" | "2 < x" "even x" | "2 < x" "odd x" by linarith
  then show ?thesis
  proof cases
    case 1 then show ?thesis by (simp add: isPrime_def)
  next
    case 2
    have "\<not> (2 \<le> d \<and> d * d \<le> 2)" for d :: int
    proof
      assume d: "2 \<le> d \<and> d * d \<le> 2"
      then have "2 * 2 \<le> d * d" by (intro mult_mono) simp_all
      with d show False by simp
    qed
    then have "\<forall>d::int. 2 \<le> d \<and> d * d \<le> 2 \<longrightarrow> \<not> d dvd 2" by blast
    with 2 show ?thesis by (simp add: isPrime_def)
  next
    case 3
    then have "2 dvd x" "2 * 2 \<le> x" by presburger+
    then have "\<not> (\<forall>d. 2 \<le> d \<and> d * d \<le> x \<longrightarrow> \<not> d dvd x)"
      by (intro notI) (metis order_refl)
    with 3 show ?thesis by (simp add: isPrime_def smod_pos)
  next
    case 4
    then have "x smod 2 \<noteq> 0" by (simp add: smod_pos) presburger
    with 4 have "isPrime x = isPrime_loop 3 x" by (simp add: isPrime_def)
    also have "\<dots> \<longleftrightarrow> (\<forall>d. 3 \<le> d \<and> d * d \<le> x \<longrightarrow> \<not> d dvd x)"
      using 4 by (intro isPrime_loop_iff) simp_all
    also have "\<dots> \<longleftrightarrow> (\<forall>d. 2 \<le> d \<and> d * d \<le> x \<longrightarrow> \<not> d dvd x)"
    proof (intro iffI allI impI)
      fix d assume a: "\<forall>d. 3 \<le> d \<and> d * d \<le> x \<longrightarrow> \<not> d dvd x" and d: "2 \<le> d \<and> d * d \<le> x"
      then consider "d = 2" | "3 \<le> d" by linarith
      then show "\<not> d dvd x" using a d 4 by cases simp_all
    next
      fix d assume "\<forall>d. 2 \<le> d \<and> d * d \<le> x \<longrightarrow> \<not> d dvd x" and "3 \<le> d \<and> d * d \<le> x"
      then show "\<not> d dvd x" by simp
    qed
    finally show ?thesis using 4 by simp
  qed
qed

lemma le_floor_sqrt:
  "0 \<le> x \<Longrightarrow> 0 \<le> d \<Longrightarrow> d \<le> \<lfloor>sqrt (real_of_int x)\<rfloor> \<longleftrightarrow> d * d \<le> x"
  using le_sqrt_real [of x d] by (auto simp: le_floor_iff le_sqrt_def)


lemma array_filter_ints:
  "array_filter filterPrimes_cb (map jint xs) = Inr (map jint (filter isPrime xs))"
  by (induction xs) (simp_all add: filterPrimes_cb_def)

lemma array_filter_non_integer:
  "\<exists>v\<in>set vs. int_value v = None \<Longrightarrow>
   array_filter filterPrimes_cb vs = Inl (Error ''All elements must be integers'')"
proof (induction vs)
  case Nil
  then show ?case by simp
next
  case (Cons v vs)
  show ?case
  proof (cases "int_value v")
    case None
    then show ?thesis by (simp add: filterPrimes_cb_def)
  next
    case (Some k)
    with Cons.prems have "\<exists>v\<in>set vs. int_value v = None" by auto
    with Cons.IH Some show ?thesis by (simp add: filterPrimes_cb_def)
  qed
qed

lemma int_value_None: "int_value v = None \<longleftrightarrow> (\<forall>k. v \<noteq> jint k)"
  using int_value_Some [of v] by (cases "int_value v") auto

lemma isPrime_small:
  "\<not> isPrime 1" "isPrime 2" "isPrime 3" "\<not> isPrime 4" "isPrime 5" "\<not> isPrime 6" "isPrime 7"
  by (simp_all add: isPrime_def isPrime_loop.simps le_sqrt_def smod_int_alt_def)

text \<open>
  C5. For every integer \<open>x\<close>, \<^verbatim>\<open>isPrime(x)\<close> is true exactly when \<open>x \<ge> 2\<close> and no integer
  from 2 to the integer part of the square root of \<open>x\<close> divides \<open>x\<close>, so that every number
  below 2 is rejected. On an array of integers \<^verbatim>\<open>filterPrimes\<close> returns the primes among the
  elements, in their order and with their repetitions; it fails when its input is no array
  and when an element is no integer.
\<close>

theorem isPrime_filterPrimes_spec:
  "(isPrime x \<longleftrightarrow> 2 \<le> x \<and> (\<forall>d. 2 \<le> d \<and> d \<le> \<lfloor>sqrt (real_of_int x)\<rfloor> \<longrightarrow> \<not> d dvd x))
   \<and> (x < 2 \<longrightarrow> \<not> isPrime x)
   \<and> filterPrimes (JArr (map jint xs)) = Inr (JArr (map jint (filter isPrime xs)))
   \<and> filterPrimes (JArr (map jint [1, 2, 3, 4, 5, 6, 7])) = Inr (JArr (map jint [2, 3, 5, 7]))
   \<and> filterPrimes (JArr (map jint [2, 2, 3])) = Inr (JArr (map jint [2, 2, 3]))
   \<and> ((\<forall>vs. arr \<noteq> JArr vs) \<longrightarrow> filterPrimes arr = Inl (Error ''Input must be an array''))
   \<and> ((\<exists>v\<in>set vs. \<forall>k. v \<noteq> jint k) \<longrightarrow>
        filterPrimes (JArr vs) = Inl (Error ''All elements must be integers''))"
proof (intro conjI impI)
  show "isPrime x \<longleftrightarrow> 2 \<le> x \<and> (\<forall>d. 2 \<le> d \<and> d \<le> \<lfloor>sqrt (real_of_int x)\<rfloor> \<longrightarrow> \<not> d dvd x)"
  proof (cases "2 \<le> x")
    case True
    then have "(2 \<le> d \<and> d \<le> \<lfloor>sqrt (real_of_int x)\<rfloor>) \<longleftrightarrow> (2 \<le> d \<and> d * d \<le> x)" for d
      using le_floor_sqrt [of x d] by auto
    then show ?thesis by (simp only: isPrime_iff_square)
  next
    case False
    then show ?thesis by (simp add: isPrime_def)
  qed
  show "\<not> isPrime x" if "x < 2"
    using that by (simp add: isPrime_def)
  show all: "filterPrimes (JArr (map jint xs)) = Inr (JArr (map jint (filter isPrime xs)))" for xs
    by (simp add: filterPrimes_def array_filter_ints)
  show "filterPrimes (JArr (map jint [1, 2, 3, 4, 5, 6, 7])) = Inr (JArr (map jint [2, 3, 5, 7]))"
    unfolding all by (simp add: isPrime_small)
  show "filterPrimes (JArr (map jint [2, 2, 3])) = Inr (JArr (map jint [2, 2, 3]))"
    unfolding all by (simp add: isPrime_small)
  show "filterPrimes arr = Inl (Error ''Input must be an array'')" if "\<forall>vs. arr \<noteq> JArr vs"
    using that by (cases arr) (simp_all add: filterPrimes_def)
  show "filterPrimes (JArr vs) = Inl (Error ''All elements must be integers'')"
    if "\<exists>v\<in>set vs. \<forall>k. v \<noteq> jint k"
    using that array_filter_non_integer [of vs]
    by (simp add: filterPrimes_def int_value_None)
qed

theorem isPrime_filterPrimes_spec_witness:
  "isPrime 7 \<and> \<not> isPrime (- 3)
   \<and> filterPrimes (JArr [jint 4, jint 7, jint 7]) = Inr (JArr [jint 7, jint 7])
   \<and> filterPrimes (JStr ''2,3'') = Inl (Error ''Input must be an array'')
   \<and> filterPrimes (JArr [jint 2, JStr ''3'']) = Inl (Error ''All elements must be integers'')"
proof -
  note spec = isPrime_filterPrimes_spec
  have "\<not> d dvd (7::int)" if d: "2 \<le> d \<and> d \<le> \<lfloor>sqrt (real_of_int 7)\<rfloor>" for d
  proof -
    from d have sq: "d * d \<le> 7"
      using le_floor_sqrt [of 7 d] by simp
    have "d < 3"
    proof (rule ccontr)
      assume "\<not> d < 3"
      then have "3 * 3 \<le> d * d" by (intro mult_mono) simp_all
      with sq show False by simp
    qed
    with d have "d = 2" by simp
    then show ?thesis by simp
  qed
  with spec [of 7] have p7: "isPrime 7"
    by simp
  from spec [of "- 3"] have pm: "\<not> isPrime (- 3)" by simp
  from spec [of 0 "[4, 7, 7]"] p7
  have f: "filterPrimes (JArr [jint 4, jint 7, jint 7]) = Inr (JArr [jint 7, jint 7])"
    by (simp add: isPrime_small)
  have "\<forall>vs. JStr ''2,3'' \<noteq> JArr vs" by simp
  with spec [of 0 "[]" "JStr ''2,3''"]
  have a: "filterPrimes (JStr ''2,3'') = Inl (Error ''Input must be an array'')"
    by blast
  have "\<exists>v\<in>set [jint 2, JStr ''3'']. \<forall>k. v \<noteq> jint k" by simp
  with spec [of 0 "[]" JNull "[jint 2, JStr ''3'']"]
  have b: "filterPrimes (JArr [jint 2, JStr ''3'']) = Inl (Error ''All elements must be integers'')"
    by blast
  from p7 pm f a b show ?thesis by blast
qed

subsection \<open>gcd on finite numbers\<close>

lemma smod_abs_less: "b \<noteq> 0 \<Longrightarrow> \<bar>(a::int) smod b\<bar> < \<bar>b\<bar>"
  using smod_int_range [of b a] by auto

lemma rat_rem_scaled:
  assumes d: "0 < d" and b: "b \<noteq> 0"
  shows "rat_rem (of_int a / d) (of_int b / d) = of_int (a smod b) / d"
proof -
  define p q where "p = abs a" and "q = abs b"
  have pq: "abs (rat_of_int a) = of_int p" "abs (rat_of_int b) = of_int q"
    by (simp_all add: p_def q_def)
  have q0: "rat_of_int q \<noteq> 0" using b by (simp add: q_def)
  have quot: "abs (of_int a / d) / abs (of_int b / d) = rat_of_int p / of_int q"
    using d by (simp add: abs_divide pq)
  have fl: "\<lfloor>rat_of_int p / of_int q\<rfloor> = p div q"
    by (rule floor_divide_of_int_eq)
  have m: "rat_of_int (p mod q) = of_int p - of_int q * of_int (p div q)"
    by (simp add: minus_mult_div_eq_mod [symmetric])
  have "sgn (rat_of_int a) = of_int (sgn a)"
    by (cases a "0::int" rule: linorder_cases) simp_all
  then have s: "sgn (rat_of_int a / d) = of_int (sgn a)"
    using d by (simp add: sgn_divide)
  have "rat_rem (of_int a / d) (of_int b / d)
      = of_int (sgn a) * ((of_int p - of_int q * of_int (p div q)) / d)"
    unfolding rat_rem_def quot fl s using d
    by (simp add: abs_divide pq diff_divide_distrib)
  also have "\<dots> = of_int (sgn a * (p mod q)) / d"
    by (simp add: m)
  finally show ?thesis by (simp add: smod_int_alt_def p_def q_def)
qed


lemma gcd_js_scaled:
  "0 < d \<Longrightarrow>
   gcd_js prim (JNum (Fin (of_int a / d))) (JNum (Fin (of_int b / d)))
     = Some (Inr (JNum (Fin (of_int (euclid a b) / d))))"
proof (induction a b rule: euclid.induct)
  case (1 a b)
  show ?case
  proof (cases "b = 0")
    case True
    then show ?thesis
      by (subst gcd_js.simps, subst euclid.simps) simp
  next
    case False
    with "1.prems" have nz: "rat_of_int b / d \<noteq> 0" by simp
    have r: "js_rem prim (JNum (Fin (of_int a / d))) (JNum (Fin (of_int b / d)))
        = Inr (JNum (Fin (of_int (a smod b) / d)))"
      using nz rat_rem_scaled [OF "1.prems" False, of a] by (simp add: js_rem_def)
    have "gcd_js prim (JNum (Fin (of_int a / d))) (JNum (Fin (of_int b / d)))
        = gcd_js prim (JNum (Fin (of_int b / d))) (JNum (Fin (of_int (a smod b) / d)))"
      using nz by (subst gcd_js.simps) (simp add: r)
    also have "\<dots> = Some (Inr (JNum (Fin (of_int (euclid b (a smod b)) / d))))"
      using "1.IH" [OF False "1.prems"] .
    also have "euclid b (a smod b) = euclid a b"
      using False by (subst (2) euclid.simps) simp
    finally show ?thesis .
  qed
qed

lemma gcd_js_int:
  "gcd_js prim (jint a) (jint b) = Some (Inr (jint (euclid a b)))"
  using gcd_js_scaled [of 1 prim a b] by simp

lemma euclid_nonzero: "a \<noteq> 0 \<or> b \<noteq> 0 \<Longrightarrow> euclid a b \<noteq> 0"
proof (induction a b rule: euclid.induct)
  case (1 a b)
  show ?case
  proof (cases "b = 0")
    case True
    with "1.prems" show ?thesis by (subst euclid.simps) simp
  next
    case False
    with "1.IH" show ?thesis by (subst euclid.simps) simp
  qed
qed

lemma abs_euclid: "\<bar>euclid a b\<bar> = gcd a b"
proof (induction a b rule: euclid.induct)
  case (1 a b)
  show ?case
  proof (cases "b = 0")
    case True
    then show ?thesis by (subst euclid.simps) simp
  next
    case False
    have "gcd b (a smod b) = gcd \<bar>b\<bar> (\<bar>a\<bar> mod \<bar>b\<bar>)"
      by (cases a "0::int" rule: linorder_cases) (simp_all add: smod_int_alt_def)
    also have "\<dots> = gcd \<bar>a\<bar> \<bar>b\<bar>"
      by (rule gcd_red_int [symmetric])
    also have "\<dots> = gcd a b"
      by simp
    finally show ?thesis
      using False "1.IH" by (subst euclid.simps) simp
  qed
qed

lemma euclid_pos: "0 \<le> a \<Longrightarrow> 0 \<le> b \<Longrightarrow> euclid a b = gcd a b"
proof (induction a b rule: euclid.induct)
  case (1 a b)
  show ?case
  proof (cases "b = 0")
    case True
    with "1.prems" show ?thesis by (subst euclid.simps) simp
  next
    case False
    with "1.prems" have "a smod b = a mod b" by (simp add: smod_pos)
    moreover from False "1.prems" have "0 \<le> a mod b" by simp
    ultimately have "euclid b (a smod b) = gcd b (a mod b)"
      using "1.IH" [OF False] "1.prems" by simp
    also have "\<dots> = gcd a b"
      by (rule gcd_red_int [symmetric])
    finally show ?thesis using False by (subst euclid.simps) simp
  qed
qed


lemma euclid_dvd: "euclid a b dvd a" "euclid a b dvd b"
proof -
  have "\<bar>euclid a b\<bar> dvd a" "\<bar>euclid a b\<bar> dvd b"
    unfolding abs_euclid by simp_all
  then show "euclid a b dvd a" "euclid a b dvd b" by simp_all
qed

subsection \<open>The folds on integers\<close>

lemma call_gcd_int: "call_gcd prim (jint a) (jint b) = Inr (jint (euclid a b))"
  by (simp add: call_gcd_def gcd_js_int)

lemma hcf_cb_int: "0 < k \<Longrightarrow> hcf_cb prim (jint a) (jint k) = Inr (jint (euclid a k))"
  by (simp add: hcf_cb_def call_gcd_int)

lemma reduce_hcf_int:
  "\<forall>k\<in>set ks. 0 < k \<Longrightarrow>
   array_reduce (hcf_cb prim) (jint a) (map jint ks) = Inr (jint (foldl euclid a ks))"
  by (induction ks arbitrary: a) (simp_all add: hcf_cb_int)

lemma js_mul_int:
  "\<bar>a * b\<bar> < 2 ^ 53 \<Longrightarrow> js_mul prim (jint a) (jint b) = Inr (jint (a * b))"
  using fl_int [of "a * b"] by (simp add: js_mul_def)

lemma js_div_int:
  assumes "g dvd p" "g \<noteq> 0" "\<bar>p\<bar> < 2 ^ 53"
  shows "js_div prim (jint p) (jint g) = Inr (jint (p div g))"
proof -
  have q: "rat_of_int p / of_int g = of_int (p div g)"
    using assms(1) by (simp add: of_int_div)
  from assms(1) obtain c where c: "p = g * c" ..
  with assms(2) have "p div g = c" by simp
  moreover have "\<bar>c\<bar> \<le> \<bar>g\<bar> * \<bar>c\<bar>"
  proof -
    from assms(2) have "1 \<le> \<bar>g\<bar>" by simp
    then have "1 * \<bar>c\<bar> \<le> \<bar>g\<bar> * \<bar>c\<bar>" by (rule mult_right_mono) simp
    then show ?thesis by simp
  qed
  ultimately have "\<bar>p div g\<bar> \<le> \<bar>p\<bar>"
    using c by (simp add: abs_mult)
  with assms(3) have "\<bar>p div g\<bar> < 2 ^ 53" by simp
  then have "fl (of_int (p div g)) = Fin (of_int (p div g))" by (rule fl_int)
  with assms(2) show ?thesis by (simp add: js_div_def q)
qed

lemma lcm_js_int:
  assumes "b \<noteq> 0" "\<bar>a * b\<bar> < 2 ^ 53"
  shows "lcm_js prim (jint a) (jint b) = Inr (jint (int_lcm a b))"
proof -
  have g: "euclid a b \<noteq> 0" using assms(1) by (intro euclid_nonzero) simp
  have d: "euclid a b dvd a * b" using euclid_dvd(1) [of a b] by simp
  have "js_div prim (jint (a * b)) (jint (euclid a b)) = Inr (jint (a * b div euclid a b))"
    using d g assms(2) by (rule js_div_int)
  then show ?thesis
    by (simp add: lcm_js_def js_mul_int [OF assms(2)] call_gcd_int int_lcm_def)
qed

lemma lcm_cb_int:
  "0 < k \<Longrightarrow> \<bar>a * k\<bar> < 2 ^ 53 \<Longrightarrow> lcm_cb prim (jint a) (jint k) = Inr (jint (int_lcm a k))"
  by (simp add: lcm_cb_def lcm_js_int)

lemma reduce_lcm_int:
  "\<forall>k\<in>set ks. 0 < k \<Longrightarrow> lcm_exact a ks \<Longrightarrow>
   array_reduce (lcm_cb prim) (jint a) (map jint ks) = Inr (jint (foldl int_lcm a ks))"
  by (induction ks arbitrary: a) (simp_all add: lcm_cb_int)

subsection \<open>gcd, calculateHCF and calculateLCM\<close>

lemma gcd_js_NaN:
  "gcd_js prim (JNum m) (JNum NaN) = None"
proof (rule ccontr)
  assume "gcd_js prim (JNum m) (JNum NaN) \<noteq> None"
  then obtain y where y: "gcd_js prim (JNum m) (JNum NaN) = Some y" by auto
  have "\<forall>n. JNum m = JNum n \<longrightarrow> JNum NaN \<noteq> JNum NaN"
    by (rule gcd_js.raw_induct [where P = "\<lambda>prim a b y. \<forall>n. a = JNum n \<longrightarrow> b \<noteq> JNum NaN", OF _ y])
       (fastforce simp: js_rem_def split: if_splits sum.splits)
  then show False by simp
qed

lemma call_gcd_not_finite:
  assumes "\<forall>q. m \<noteq> Fin q" and "0 < k"
  shows "call_gcd prim (JNum m) (jint k) = Inl stack_overflow"
proof -
  from assms(1) have r: "num_rem m (Fin (of_int k)) = NaN"
    by (cases m) simp_all
  from assms(2) have "gcd_js prim (JNum m) (jint k) = gcd_js prim (jint k) (JNum NaN)"
    by (subst gcd_js.simps) (simp add: js_rem_def r)
  then show ?thesis by (simp add: call_gcd_def gcd_js_NaN)
qed

lemma hcf_cb_not_finite:
  "\<forall>q. m \<noteq> Fin q \<Longrightarrow> 0 < k \<Longrightarrow> hcf_cb prim (JNum m) (jint k) = Inl stack_overflow"
  by (simp add: hcf_cb_def call_gcd_not_finite)

lemma lcm_cb_not_finite:
  "\<forall>q. m \<noteq> Fin q \<Longrightarrow> 0 < k \<Longrightarrow> lcm_cb prim (JNum m) (jint k) = Inl stack_overflow"
  by (simp add: lcm_cb_def lcm_js_def js_mul_def call_gcd_not_finite)

text \<open>
  C9. \<^verbatim>\<open>gcd(a, b)\<close> returns for every pair of integers: with \<open>b = 0\<close> it returns \<open>a\<close>, and
  with \<open>b \<noteq> 0\<close> it calls itself on \<open>b\<close> and \<open>a % b\<close>, whose absolute value is below that of
  \<open>b\<close>.
\<close>

theorem gcd_terminates:
  "(\<exists>r. gcd_js prim (jint a) (jint b) = Some (Inr (jint r)))
   \<and> gcd_js prim (jint a) (jint 0) = Some (Inr (jint a))
   \<and> (b \<noteq> 0 \<longrightarrow>
        js_rem prim (jint a) (jint b) = Inr (jint (a smod b))
        \<and> \<bar>a smod b\<bar> < \<bar>b\<bar>
        \<and> gcd_js prim (jint a) (jint b) = gcd_js prim (jint b) (jint (a smod b)))"
proof (intro conjI impI)
  show "\<exists>r. gcd_js prim (jint a) (jint b) = Some (Inr (jint r))"
    by (simp add: gcd_js_int)
  show "gcd_js prim (jint a) (jint 0) = Some (Inr (jint a))"
    by (subst gcd_js.simps) simp
  assume b: "b \<noteq> 0"
  show r: "js_rem prim (jint a) (jint b) = Inr (jint (a smod b))"
    using b rat_rem_scaled [of 1 b a] by (simp add: js_rem_def)
  show "\<bar>a smod b\<bar> < \<bar>b\<bar>"
    using b by (rule smod_abs_less)
  show "gcd_js prim (jint a) (jint b) = gcd_js prim (jint b) (jint (a smod b))"
    using b by (subst gcd_js.simps) (simp add: r)
qed

theorem gcd_terminates_witness:
  "gcd_js no_numeric (jint 12) (jint 18) = Some (Inr (jint 6))"
proof -
  have "gcd_js no_numeric (jint 12) (jint 18) = gcd_js no_numeric (jint 18) (jint 12)"
    using gcd_terminates [of no_numeric 12 18] by (simp add: smod_int_alt_def)
  also have "\<dots> = gcd_js no_numeric (jint 12) (jint 6)"
    using gcd_terminates [of no_numeric 18 12] by (simp add: smod_int_alt_def)
  also have "\<dots> = gcd_js no_numeric (jint 6) (jint 0)"
    using gcd_terminates [of no_numeric 12 6] by (simp add: smod_int_alt_def)
  also have "\<dots> = Some (Inr (jint 6))"
    using gcd_terminates [of no_numeric 6 0] by simp
  finally show ?thesis .
qed

text \<open>
  C6, as stated, has \<^verbatim>\<open>calculateLCM\<close> return the fold of \<open>a * b / gcd(a, b)\<close> on every array of
  positive integers. The product is a product of doubles: on \<open>[94906267, 94906267]\<close> it is
  rounded to 9007199515875288, and the quotient by 94906267 is not 94906267 but the double
  just below it.
\<close>

theorem lcm_rounding_counterexample:
  "calculateLCM no_numeric (JArr [jint 94906267, jint 94906267])
     = Inr (JNum (Fin (6369051764850687 / 67108864)))
   \<and> foldl int_lcm 94906267 [94906267] = 94906267
   \<and> Fin (6369051764850687 / 67108864) \<noteq> Fin (of_int 94906267)"
proof -
  have e: "euclid 94906267 94906267 = 94906267"
    by (simp add: euclid.simps smod_int_alt_def)
  have m: "js_mul no_numeric (jint 94906267) (jint 94906267) = Inr (JNum (Fin 9007199515875288))"
    using fl_examples(2) by (simp add: js_mul_def)
  have g: "call_gcd no_numeric (jint 94906267) (jint 94906267) = Inr (jint 94906267)"
    using call_gcd_int [of no_numeric 94906267 94906267] by (simp only: e)
  have d: "js_div no_numeric (JNum (Fin 9007199515875288)) (jint 94906267)
      = Inr (JNum (Fin (6369051764850687 / 67108864)))"
    using fl_examples(3) by (simp add: js_div_def)
  have "lcm_js no_numeric (jint 94906267) (jint 94906267)
      = Inr (JNum (Fin (6369051764850687 / 67108864)))"
    by (simp only: lcm_js_def m g d sum.case)
  moreover have "int_value (jint 94906267) = Some 94906267"
    by (rule int_value_jint)
  ultimately have "calculateLCM no_numeric (JArr [jint 94906267, jint 94906267])
      = Inr (JNum (Fin (6369051764850687 / 67108864)))"
    by (simp add: calculateLCM_def lcm_cb_def del: int_value_jint)
  moreover have "foldl int_lcm 94906267 [94906267] = 94906267"
    by (simp add: int_lcm_def e)
  ultimately show ?thesis by simp
qed

text \<open>
  C6, amended. On a non-empty array of positive integers \<^verbatim>\<open>calculateHCF\<close> returns the left
  fold of the Euclidean algorithm, the first element being the first accumulator.
  \<^verbatim>\<open>calculateLCM\<close> returns the left fold of \<open>a * b / gcd(a, b)\<close>, a division that is exact,
  when every product \<open>a * b\<close> that the fold forms is below \<open>2 ^ 53\<close>. The \<^verbatim>\<open>gcd\<close> of the program
  is the Euclidean algorithm, and on non-negative integers it is the greatest common
  divisor. In particular \<open>hcf([12, 18, 24]) = 6\<close> and \<open>lcm([4, 6]) = 12\<close>.
\<close>

theorem hcf_lcm_fold_doubles:
  "((\<forall>k\<in>set (x # xs). 0 < k) \<longrightarrow>
        calculateHCF prim (JArr (map jint (x # xs))) = Inr (jint (foldl euclid x xs))
      \<and> (lcm_exact x xs \<longrightarrow>
            calculateLCM prim (JArr (map jint (x # xs))) = Inr (jint (foldl int_lcm x xs))))
   \<and> gcd_js prim (jint a) (jint b) = Some (Inr (jint (euclid a b)))
   \<and> euclid a 0 = a
   \<and> (b \<noteq> 0 \<longrightarrow> euclid a b = euclid b (a smod b))
   \<and> (0 \<le> a \<and> 0 \<le> b \<longrightarrow> euclid a b = gcd a b)
   \<and> int_lcm a b = a * b div euclid a b
   \<and> euclid a b dvd a * b
   \<and> calculateHCF prim (JArr [jint 12, jint 18, jint 24]) = Inr (jint 6)
   \<and> calculateLCM prim (JArr [jint 4, jint 6]) = Inr (jint 12)"
proof (intro conjI impI)
  assume pos: "\<forall>k\<in>set (x # xs). 0 < k"
  then show "calculateHCF prim (JArr (map jint (x # xs))) = Inr (jint (foldl euclid x xs))"
    using reduce_hcf_int [of xs prim x] by (simp add: calculateHCF_def)
  assume "lcm_exact x xs"
  with pos show "calculateLCM prim (JArr (map jint (x # xs))) = Inr (jint (foldl int_lcm x xs))"
    using reduce_lcm_int [of xs x prim] by (simp add: calculateLCM_def)
next
  show "gcd_js prim (jint a) (jint b) = Some (Inr (jint (euclid a b)))"
    by (rule gcd_js_int)
  show "euclid a 0 = a"
    by (subst euclid.simps) simp
  show "euclid a b = euclid b (a smod b)" if "b \<noteq> 0"
    using that by (subst euclid.simps) simp
  show "euclid a b = gcd a b" if "0 \<le> a \<and> 0 \<le> b"
    using that by (simp add: euclid_pos)
  show "int_lcm a b = a * b div euclid a b"
    by (rule int_lcm_def)
  show "euclid a b dvd a * b"
    using euclid_dvd(1) [of a b] by simp
  have e1: "foldl euclid 12 [18, 24] = 6"
    by (simp add: euclid.simps smod_int_alt_def)
  have "calculateHCF prim (JArr (map jint (12 # [18, 24]))) = Inr (jint (foldl euclid 12 [18, 24]))"
    using reduce_hcf_int [of "[18, 24]" prim 12]
    by (simp only: calculateHCF_def) simp
  then show "calculateHCF prim (JArr [jint 12, jint 18, jint 24]) = Inr (jint 6)"
    unfolding e1 by simp
  have e2: "int_lcm 4 6 = 12"
    by (simp add: int_lcm_def euclid.simps smod_int_alt_def)
  have "calculateLCM prim (JArr (map jint (4 # [6]))) = Inr (jint (foldl int_lcm 4 [6]))"
    using reduce_lcm_int [of "[6]" 4 prim]
    by (simp only: calculateLCM_def) simp
  then show "calculateLCM prim (JArr [jint 4, jint 6]) = Inr (jint 12)"
    by (simp add: e2)
qed

theorem hcf_lcm_fold_doubles_witness:
  "calculateHCF no_numeric (JArr [jint 8, jint 12]) = Inr (jint 4)
   \<and> calculateLCM no_numeric (JArr [jint 8, jint 12]) = Inr (jint 24)
   \<and> euclid 8 12 = 4"
proof -
  have pos: "\<forall>k\<in>set (8 # [12::int]). 0 < k" by simp
  have e: "euclid 12 8 = euclid 8 4" "euclid 8 4 = euclid 4 0" "euclid 4 0 = 4"
          "euclid 8 12 = euclid 12 8"
    using hcf_lcm_fold_doubles [of 8 "[12]" no_numeric 12 8]
      hcf_lcm_fold_doubles [of 8 "[12]" no_numeric 8 4]
      hcf_lcm_fold_doubles [of 8 "[12]" no_numeric 4 0]
      hcf_lcm_fold_doubles [of 8 "[12]" no_numeric 8 12]
    by (simp_all add: smod_int_alt_def)
  then have g: "euclid 8 12 = 4" by simp
  then have l: "int_lcm 8 12 = 24" by (simp add: int_lcm_def)
  have x: "lcm_exact 8 [12]" by simp
  from hcf_lcm_fold_doubles [of 8 "[12]" no_numeric 0 0] pos x g l show ?thesis
    by simp
qed

subsection \<open>The first element of the array\<close>

text \<open>
  C1. The claim is that \<^verbatim>\<open>calculateHCF\<close> and \<^verbatim>\<open>calculateLCM\<close> fail on every input that is
  not a non-empty array of positive integers. They do on the empty array and on a bad
  element after the first, but the callback of \<^verbatim>\<open>reduce\<close> never sees the first element:
  \<open>lcm([-2, 4])\<close> returns 4, \<open>hcf([-5])\<close> returns -5 and \<open>hcf([0, 4])\<close> returns 4.
\<close>

theorem first_element_not_validated:
  "calculateLCM prim (JArr [jint (- 2), jint 4]) = Inr (jint 4)
   \<and> calculateHCF prim (JArr [jint (- 5)]) = Inr (jint (- 5))
   \<and> calculateHCF prim (JArr [jint 0, jint 4]) = Inr (jint 4)
   \<and> calculateHCF prim (JArr []) = Inl (Error ''Input must be a non-empty array'')
   \<and> calculateLCM prim (JArr [jint 4, jint (- 2)]) = Inl (Error ''All elements must be positive integers'')"
proof (intro conjI)
  have e: "euclid (- 2) 4 = - 2" "euclid 0 4 = 4"
    by (simp_all add: euclid.simps smod_int_alt_def)
  have "calculateLCM prim (JArr (map jint [- 2, 4])) = Inr (jint (foldl int_lcm (- 2) [4]))"
    using reduce_lcm_int [of "[4]" "- 2" prim]
    by (simp only: calculateLCM_def) simp
  then show "calculateLCM prim (JArr [jint (- 2), jint 4]) = Inr (jint 4)"
    by (simp add: int_lcm_def e)
  show "calculateHCF prim (JArr [jint (- 5)]) = Inr (jint (- 5))"
    by (simp add: calculateHCF_def)
  have "calculateHCF prim (JArr (map jint [0, 4])) = Inr (jint (foldl euclid 0 [4]))"
    using reduce_hcf_int [of "[4]" prim 0]
    by (simp only: calculateHCF_def) simp
  then show "calculateHCF prim (JArr [jint 0, jint 4]) = Inr (jint 4)"
    by (simp add: e)
  show "calculateHCF prim (JArr []) = Inl (Error ''Input must be a non-empty array'')"
    by (simp add: calculateHCF_def)
  show "calculateLCM prim (JArr [jint 4, jint (- 2)]) = Inl (Error ''All elements must be positive integers'')"
    using int_value_jint [of "- 2"] by (simp add: calculateLCM_def lcm_cb_def del: int_value_jint)
qed

text \<open>
  C10. The claim is that no error is raised when the first element is no positive integer
  and the others are. The one-element array does return its element. But a first element
  that is never validated reaches \<^verbatim>\<open>gcd\<close>: Infinity is no integer, its remainder is NaN,
  and \<^verbatim>\<open>gcd\<close> recurses on NaN without end, so that both functions fail with the stack
  overflow on \<open>[Infinity, 4]\<close>.
\<close>

theorem infinite_first_element_overflows:
  "int_value (JNum PInf) = None \<and> int_value (jint 4) = Some 4
   \<and> calculateHCF prim (JArr [JNum PInf, jint 4]) = Inl stack_overflow
   \<and> calculateLCM prim (JArr [JNum PInf, jint 4]) = Inl stack_overflow
   \<and> calculateHCF prim (JArr [v]) = Inr v
   \<and> calculateLCM prim (JArr [v]) = Inr v"
  using hcf_cb_not_finite [of PInf 4 prim] lcm_cb_not_finite [of PInf 4 prim]
    int_value_jint [of 4]
  by (simp add: calculateHCF_def calculateLCM_def del: int_value_jint)

subsection \<open>The cleaning of the response\<close>

lemma remove_char_remove_bold:
  "remove_char (CHR ''*'') (remove_bold s) = remove_char (CHR ''*'') s"
  by (induction s rule: remove_bold.induct) (simp_all add: remove_char_def)

lemma strip_markers_filter:
  "strip_markers raw = filter (\<lambda>c. \<not> is_marker c) raw"
proof -
  have "strip_markers raw
      = remove_punctuation (remove_char (CHR 0x60) (remove_char (CHR ''*'') raw))"
    by (simp only: strip_markers_def remove_char_remove_bold)
  also have "\<dots> = filter (\<lambda>c. \<not> is_marker c) raw"
    by (auto simp: remove_punctuation_def remove_char_def is_marker_def intro: filter_cong)
  finally show ?thesis .
qed

lemma trim_empty_iff: "trim s = [] \<longleftrightarrow> (\<forall>c\<in>set s. is_space c)"
proof -
  have "trim s = [] \<longleftrightarrow> (\<forall>c\<in>set (dropWhile is_space s). is_space c)"
    by (simp add: trim_def dropWhile_eq_Nil_conv)
  also have "\<dots> \<longleftrightarrow> (\<forall>c\<in>set s. is_space c)"
  proof
    assume a: "\<forall>c\<in>set (dropWhile is_space s). is_space c"
    show "\<forall>c\<in>set s. is_space c"
    proof (cases "dropWhile is_space s")
      case Nil
      then show ?thesis by (simp add: dropWhile_eq_Nil_conv)
    next
      case (Cons c cs)
      then have "\<not> is_space c" using hd_dropWhile [of is_space s] by simp
      with a Cons show ?thesis by simp
    qed
  next
    assume "\<forall>c\<in>set s. is_space c"
    then show "\<forall>c\<in>set (dropWhile is_space s). is_space c"
      by (auto dest: set_dropWhileD)
  qed
  finally show ?thesis .
qed

lemma rev_split: "t = rev (dropWhile P (rev t)) @ rev (takeWhile P (rev t))"
proof -
  have "rev (takeWhile P (rev t) @ dropWhile P (rev t)) = rev (rev t)"
    by (simp only: takeWhile_dropWhile_id)
  then show ?thesis by (simp only: rev_append rev_rev_ident)
qed

lemma trim_decompose:
  "\<exists>pre post. s = pre @ trim s @ post \<and> (\<forall>c\<in>set pre. is_space c) \<and> (\<forall>c\<in>set post. is_space c)"
proof -
  let ?t = "dropWhile is_space s"
  have 1: "s = takeWhile is_space s @ ?t" by simp
  have 2: "?t = trim s @ rev (takeWhile is_space (rev ?t))"
    unfolding trim_def by (rule rev_split)
  have "s = takeWhile is_space s @ trim s @ rev (takeWhile is_space (rev ?t))"
    using 1 2 by (metis append_assoc)
  moreover have "\<forall>c\<in>set (takeWhile is_space s). is_space c"
    using set_takeWhileD by fast
  moreover have "\<forall>c\<in>set (rev (takeWhile is_space (rev ?t))). is_space c"
    using set_takeWhileD by fastforce
  ultimately show ?thesis by blast
qed

lemma trim_starts_word: "trim s \<noteq> [] \<Longrightarrow> \<not> is_space (hd (trim s))"
proof -
  assume ne: "trim s \<noteq> []"
  let ?t = "dropWhile is_space s"
  have t: "?t \<noteq> []"
  proof
    assume e: "?t = []"
    have "trim s = []" unfolding trim_def e by simp
    with ne show False ..
  qed
  then have h: "\<not> is_space (hd ?t)" by (rule hd_dropWhile)
  have "?t = trim s @ rev (takeWhile is_space (rev ?t))"
    unfolding trim_def by (rule rev_split)
  with ne have "hd ?t = hd (trim s)" by (metis hd_append2)
  with h show ?thesis by simp
qed

lemma first_word_nonempty: "trim s \<noteq> [] \<Longrightarrow> first_word (trim s) \<noteq> []"
  using trim_starts_word [of s] by (cases "trim s") (simp_all add: first_word_def)

lemma first_word_decompose:
  "\<exists>rest. s = first_word s @ rest \<and> (rest = [] \<or> is_space (hd rest))"
proof -
  let ?r = "dropWhile (\<lambda>c. \<not> is_space c) s"
  have "s = first_word s @ ?r" by (simp add: first_word_def)
  moreover have "?r = [] \<or> is_space (hd ?r)"
    using hd_dropWhile [of "\<lambda>c. \<not> is_space c" s] by blast
  ultimately show ?thesis by blast
qed

lemma first_word_no_space: "\<forall>c\<in>set (first_word s). \<not> is_space c"
  using set_takeWhileD by (fastforce simp: first_word_def)


lemma strip_all_space_text:
  assumes "\<forall>c\<in>set raw. is_space c"
  shows "\<forall>c\<in>set (strip_markers raw). is_space c"
  using assms by (simp add: strip_markers_filter)

lemma clean_response_Inr:
  "clean_response raw = Inr w \<longleftrightarrow> w \<noteq> [] \<and> w = first_word (trim (strip_markers raw))"
proof (cases "\<forall>c\<in>set raw. is_space c")
  case True
  then have "trim (strip_markers raw) = []"
    using strip_all_space_text [of raw] by (simp only: trim_empty_iff)
  moreover from True have "trim raw = []" by (simp only: trim_empty_iff)
  ultimately show ?thesis by (simp add: clean_response_def first_word_def)
next
  case False
  then have "trim raw \<noteq> []" by (simp only: trim_empty_iff) simp
  moreover from False have "raw \<noteq> []" by auto
  ultimately show ?thesis by (auto simp: clean_response_def Let_def)
qed

lemma clean_response_token:
  assumes "clean_response raw = Inr w"
  shows "\<exists>pre post. strip_markers raw = pre @ w @ post
           \<and> (\<forall>c\<in>set pre. is_space c) \<and> (post = [] \<or> is_space (hd post))"
proof -
  from assms have w: "w = first_word (trim (strip_markers raw))"
    by (simp add: clean_response_Inr)
  obtain pre post where pp: "strip_markers raw = pre @ trim (strip_markers raw) @ post"
    "\<forall>c\<in>set pre. is_space c" "\<forall>c\<in>set post. is_space c"
    using trim_decompose [of "strip_markers raw"] by blast
  obtain rest where rest: "trim (strip_markers raw) = w @ rest" "rest = [] \<or> is_space (hd rest)"
    using first_word_decompose [of "trim (strip_markers raw)"] w by blast
  have "strip_markers raw = pre @ w @ (rest @ post)"
    using pp(1) rest(1) by simp
  moreover have "rest @ post = [] \<or> is_space (hd (rest @ post))"
    using rest(2) pp(3) by (cases rest; cases post) auto
  ultimately show ?thesis using pp(2) by blast
qed

lemma clean_response_chars:
  assumes "clean_response raw = Inr w"
  shows "\<forall>c\<in>set w. \<not> is_space c \<and> \<not> is_marker c"
proof -
  from assms have w: "w = first_word (trim (strip_markers raw))"
    by (simp add: clean_response_Inr)
  from clean_response_token [OF assms] obtain pre post
    where "strip_markers raw = pre @ w @ post" by blast
  then have "set w \<subseteq> set (strip_markers raw)" by auto
  then have "\<forall>c\<in>set w. \<not> is_marker c"
    by (auto simp: strip_markers_filter)
  with first_word_no_space [of "trim (strip_markers raw)"] w show ?thesis by blast
qed

lemma clean_response_fails:
  "(\<exists>e. clean_response raw = Inl e) \<longleftrightarrow> (\<forall>c\<in>set (strip_markers raw). is_space c)"
proof -
  have "(\<exists>e. clean_response raw = Inl e) \<longleftrightarrow> (\<forall>w. clean_response raw \<noteq> Inr w)"
    by (cases "clean_response raw") auto
  also have "\<dots> \<longleftrightarrow> first_word (trim (strip_markers raw)) = []"
    by (auto simp: clean_response_Inr)
  also have "\<dots> \<longleftrightarrow> trim (strip_markers raw) = []"
    using first_word_nonempty [of "strip_markers raw"] by (auto simp: first_word_def)
  finally show ?thesis by (simp only: trim_empty_iff)
qed

lemma clean_response_blank:
  "\<forall>c\<in>set raw. is_space c \<Longrightarrow> clean_response raw = Inl (Error ''Empty response from AI'')"
  by (simp add: clean_response_def trim_empty_iff)

lemma clean_response_examples:
  "clean_response ''**Paris.**'' = Inr ''Paris''"
  "clean_response ''  hello world  '' = Inr ''hello''"
  "clean_response [] = Inl (Error ''Empty response from AI'')"
  "clean_response ''   '' = Inl (Error ''Empty response from AI'')"
  "clean_response ''...'' = Inl (Error ''Could not extract answer'')"
  by (simp_all add: clean_response_def trim_def strip_markers_def remove_char_def
        remove_punctuation_def punctuation_def first_word_def is_space_def)

text \<open>
  C7. The cleaning removes every asterisk, backtick and punctuation character of the raw
  text, trims it, and returns the first token delimited by white space: a non-empty word
  without white space or removed characters, preceded in the stripped text by white space
  only and followed by white space or by nothing. It fails exactly when nothing but white
  space is left after the removal, as on an empty or blank text. \<open>**Paris.**\<close> gives
  \<open>Paris\<close>, and \<open>hello world\<close> between blanks gives \<open>hello\<close>.
\<close>

theorem clean_response_spec:
  "strip_markers raw = filter (\<lambda>c. \<not> is_marker c) raw
   \<and> (clean_response raw = Inr w \<longleftrightarrow> w \<noteq> [] \<and> w = first_word (trim (strip_markers raw)))
   \<and> (clean_response raw = Inr w \<longrightarrow>
        (\<forall>c\<in>set w. \<not> is_space c \<and> \<not> is_marker c)
        \<and> (\<exists>pre post. strip_markers raw = pre @ w @ post
              \<and> (\<forall>c\<in>set pre. is_space c) \<and> (post = [] \<or> is_space (hd post))))
   \<and> ((\<exists>e. clean_response raw = Inl e) \<longleftrightarrow> (\<forall>c\<in>set (strip_markers raw). is_space c))
   \<and> ((\<forall>c\<in>set raw. is_space c) \<longrightarrow> clean_response raw = Inl (Error ''Empty response from AI''))
   \<and> clean_response ''**Paris.**'' = Inr ''Paris''
   \<and> clean_response ''  hello world  '' = Inr ''hello''
   \<and> clean_response [] = Inl (Error ''Empty response from AI'')
   \<and> clean_response ''   '' = Inl (Error ''Empty response from AI'')"
  using strip_markers_filter [of raw] clean_response_Inr [of raw w]
    clean_response_chars [of raw w] clean_response_token [of raw w]
    clean_response_fails [of raw] clean_response_blank [of raw] clean_response_examples(1-4)
  by (intro conjI impI) (assumption | blast)+


theorem clean_response_spec_witness:
  "clean_response '' *Rome!*  is'' = Inr ''Rome''
   \<and> clean_response [CHR 0x09, CHR '' ''] = Inl (Error ''Empty response from AI'')"
proof -
  have w: "first_word (trim (strip_markers '' *Rome!*  is'')) = ''Rome''"
    by (simp add: trim_def strip_markers_def remove_char_def remove_punctuation_def
          punctuation_def first_word_def is_space_def)
  have b: "\<forall>c\<in>set [CHR 0x09, CHR '' '']. is_space c"
    by (simp add: is_space_def)
  from clean_response_spec [of "'' *Rome!*  is''" "''Rome''"] w
  have 1: "clean_response '' *Rome!*  is'' = Inr ''Rome''" by simp
  from clean_response_spec [of "[CHR 0x09, CHR '' '']" "[]"] b
  have 2: "clean_response [CHR 0x09, CHR '' ''] = Inl (Error ''Empty response from AI'')" by blast
  from 1 2 show ?thesis ..
qed

subsection \<open>getAIResponse and the handler\<close>

lemma getAIResponse_invalid:
  "(\<forall>s. question \<noteq> JStr s) \<or> (\<exists>s. question = JStr s \<and> trim s = []) \<Longrightarrow>
   getAIResponse gen question = (0, Inl (Error ''Question must be a non-empty string''))"
  by (cases question) (auto simp: getAIResponse_def)

lemma getAIResponse_valid:
  "trim s \<noteq> [] \<Longrightarrow>
   getAIResponse gen (JStr s)
     = (1, case ask gen s of Inl e \<Rightarrow> Inl (Error ''AI API request failed'') | Inr t \<Rightarrow> Inr (JStr t))"
  by (simp add: getAIResponse_def)

lemma validKeys_set:
  "key \<in> set validKeys \<longleftrightarrow>
   key = ''fibonacci'' \<or> key = ''prime'' \<or> key = ''lcm'' \<or> key = ''hcf'' \<or> key = ''AI''"
  by (simp add: validKeys_def)

lemma run_AI: "run e ''AI'' b = Some (getAIResponse (generateContent e) (get b ''AI''))"
  by (simp add: run_def)

lemma bfhl_single:
  "providedKeys b = [key] \<Longrightarrow>
   bfhl e b = (case run e key b of
                 None \<Rightarrow> (0, failure e ''Invalid key provided'')
               | Some (calls, Inl err) \<Rightarrow> (calls, failure e (message err))
               | Some (calls, Inr d) \<Rightarrow> (calls, success e d))"
  by (simp add: bfhl_def)

text \<open>
  C8. A question that is no string, or that trims to the empty string, makes
  \<^verbatim>\<open>getAIResponse\<close> fail with the message of its validation, without any use of the
  text-generation service, and the handler returns that message as it is. After the
  validation the service is used once, and every failure (the service throws, answers
  without a response, or its text cleans to nothing) gives the one message
  \<open>AI API request failed\<close>, which is also what the handler returns.
\<close>

theorem getAIResponse_errors:
  "(((\<forall>s. question \<noteq> JStr s) \<or> (\<exists>s. question = JStr s \<and> trim s = [])) \<longrightarrow>
       getAIResponse gen question = (0, Inl (Error ''Question must be a non-empty string''))
       \<and> (providedKeys b = [''AI''] \<and> get b ''AI'' = question \<and> generateContent e = gen \<longrightarrow>
            bfhl e b = (0, failure e ''Question must be a non-empty string'')))
   \<and> (question = JStr s \<and> trim s \<noteq> [] \<longrightarrow>
       fst (getAIResponse gen question) = 1
       \<and> ((\<exists>m. gen (prompt s) = Rejected m) \<or> gen (prompt s) = NoResponse
            \<or> (\<exists>t err. gen (prompt s) = Text t \<and> clean_response t = Inl err) \<longrightarrow>
              snd (getAIResponse gen question) = Inl (Error ''AI API request failed''))
       \<and> (\<forall>t w. gen (prompt s) = Text t \<and> clean_response t = Inr w \<longrightarrow>
              snd (getAIResponse gen question) = Inr (JStr w))
       \<and> (\<forall>err. snd (getAIResponse gen question) = Inl err \<longrightarrow> err = Error ''AI API request failed'')
       \<and> (providedKeys b = [''AI''] \<and> get b ''AI'' = question \<and> generateContent e = gen \<longrightarrow>
            (\<forall>err. snd (getAIResponse gen question) = Inl err \<longrightarrow>
               bfhl e b = (1, failure e ''AI API request failed''))))"
proof (intro conjI impI allI)
  assume bad: "(\<forall>s. question \<noteq> JStr s) \<or> (\<exists>s. question = JStr s \<and> trim s = [])"
  then show inv: "getAIResponse gen question = (0, Inl (Error ''Question must be a non-empty string''))"
    by (rule getAIResponse_invalid)
  assume "providedKeys b = [''AI''] \<and> get b ''AI'' = question \<and> generateContent e = gen"
  then show "bfhl e b = (0, failure e ''Question must be a non-empty string'')"
    using inv by (simp add: bfhl_single run_AI)
next
  assume ok: "question = JStr s \<and> trim s \<noteq> []"
  then have res: "getAIResponse gen question
      = (1, case ask gen s of Inl e \<Rightarrow> Inl (Error ''AI API request failed'') | Inr t \<Rightarrow> Inr (JStr t))"
    by (simp add: getAIResponse_valid)
  then show "fst (getAIResponse gen question) = 1"
    by simp
  show "snd (getAIResponse gen question) = Inl (Error ''AI API request failed'')"
    if "(\<exists>m. gen (prompt s) = Rejected m) \<or> gen (prompt s) = NoResponse
        \<or> (\<exists>t err. gen (prompt s) = Text t \<and> clean_response t = Inl err)"
    using that by (auto simp: res ask_def)
  show "snd (getAIResponse gen question) = Inr (JStr w)"
    if "gen (prompt s) = Text t \<and> clean_response t = Inr w" for t w
    using that by (simp add: res ask_def)
  show generic: "err = Error ''AI API request failed''"
    if "snd (getAIResponse gen question) = Inl err" for err
    using that by (simp add: res split: sum.splits)
  show "bfhl e b = (1, failure e ''AI API request failed'')"
    if "providedKeys b = [''AI''] \<and> get b ''AI'' = question \<and> generateContent e = gen"
      and "snd (getAIResponse gen question) = Inl err" for err
  proof -
    from that(2) have "getAIResponse gen question = (1, Inl (Error ''AI API request failed''))"
      by (simp add: res split: sum.splits)
    with that(1) show ?thesis by (simp add: bfhl_single run_AI)
  qed
qed


theorem getAIResponse_errors_witness:
  "getAIResponse (answers ''**Paris.**'') (JNum (Fin 3))
     = (0, Inl (Error ''Question must be a non-empty string''))
   \<and> getAIResponse (answers ''**Paris.**'') (JStr ''  '')
     = (0, Inl (Error ''Question must be a non-empty string''))
   \<and> getAIResponse (answers ''**Paris.**'') (JStr ''Capital of France?'') = (1, Inr (JStr ''Paris''))
   \<and> getAIResponse refuses (JStr ''Capital of France?'') = (1, Inl (Error ''AI API request failed''))
   \<and> getAIResponse (answers ''...'') (JStr ''Capital of France?'')
     = (1, Inl (Error ''AI API request failed''))
   \<and> bfhl (sample_env refuses) [(''AI'', JNull)]
     = (0, failure (sample_env refuses) ''Question must be a non-empty string'')
   \<and> bfhl (sample_env refuses) [(''AI'', JStr ''Capital of France?'')]
     = (1, failure (sample_env refuses) ''AI API request failed'')"
proof -
  define q where "q = ''Capital of France?''"
  define paris where "paris = answers ''**Paris.**''"
  define dots where "dots = answers ''...''"
  define env where "env = sample_env refuses"
  note invalid = getAIResponse_errors [THEN conjunct1, THEN mp]
  note valid = getAIResponse_errors [THEN conjunct2, THEN mp]
  have t: "trim q \<noteq> []" "trim ''  '' = []"
    by (simp_all add: trim_def is_space_def q_def)
  have c: "clean_response ''**Paris.**'' = Inr ''Paris''"
          "clean_response ''...'' = Inl (Error ''Could not extract answer'')"
    by (rule clean_response_examples)+
  have k: "providedKeys [(''AI'', v)] = [''AI''] \<and> get [(''AI'', v)] ''AI'' = v
            \<and> generateContent env = refuses" for v
    by (simp add: providedKeys_def Object_keys_def validKeys_def get_def env_def sample_env_def)
  have n3: "(\<forall>s. JNum (Fin 3) \<noteq> JStr s) \<or> (\<exists>s. JNum (Fin 3) = JStr s \<and> trim s = [])"
    by simp
  have 1: "getAIResponse paris (JNum (Fin 3))
      = (0, Inl (Error ''Question must be a non-empty string''))"
    using invalid [OF n3] by (rule conjunct1)
  have bl: "(\<forall>s. JStr ''  '' \<noteq> JStr s) \<or> (\<exists>s. JStr ''  '' = JStr s \<and> trim s = [])"
    using t(2) by blast
  have 2: "getAIResponse paris (JStr ''  '')
      = (0, Inl (Error ''Question must be a non-empty string''))"
    using invalid [OF bl] by (rule conjunct1)
  have ok: "JStr q = JStr q \<and> trim q \<noteq> []"
    using t(1) by simp
  have "paris (prompt q) = Text ''**Paris.**'' \<and> clean_response ''**Paris.**'' = Inr ''Paris''"
    using c(1) by (simp add: paris_def answers_def)
  with valid [OF ok, of paris]
  have "fst (getAIResponse paris (JStr q)) = 1
      \<and> snd (getAIResponse paris (JStr q)) = Inr (JStr ''Paris'')"
    by blast
  then have 3: "getAIResponse paris (JStr q) = (1, Inr (JStr ''Paris''))"
    by (cases "getAIResponse paris (JStr q)") simp
  have "\<exists>m. refuses (prompt q) = Rejected m"
    by (simp add: refuses_def)
  with valid [OF ok, of refuses]
  have "fst (getAIResponse refuses (JStr q)) = 1
      \<and> snd (getAIResponse refuses (JStr q)) = Inl (Error ''AI API request failed'')"
    by blast
  then have 4: "getAIResponse refuses (JStr q) = (1, Inl (Error ''AI API request failed''))"
    by (cases "getAIResponse refuses (JStr q)") simp
  have "\<exists>t err. dots (prompt q) = Text t \<and> clean_response t = Inl err"
    using c(2) by (simp add: dots_def answers_def)
  with valid [OF ok, of dots]
  have "fst (getAIResponse dots (JStr q)) = 1
      \<and> snd (getAIResponse dots (JStr q)) = Inl (Error ''AI API request failed'')"
    by blast
  then have 5: "getAIResponse dots (JStr q) = (1, Inl (Error ''AI API request failed''))"
    by (cases "getAIResponse dots (JStr q)") simp
  have nl: "(\<forall>s. JNull \<noteq> JStr s) \<or> (\<exists>s. JNull = JStr s \<and> trim s = [])"
    by simp
  have 6: "bfhl env [(''AI'', JNull)]
      = (0, failure env ''Question must be a non-empty string'')"
    using invalid [OF nl, of refuses "[(''AI'', JNull)]" env] k [of JNull] by blast
  have "snd (getAIResponse refuses (JStr q)) = Inl (Error ''AI API request failed'')"
    using 4 by simp
  with valid [OF ok, of refuses "[(''AI'', JStr q)]" env] k [of "JStr q"]
  have 7: "bfhl env [(''AI'', JStr q)] = (1, failure env ''AI API request failed'')"
    by blast
  from 1 2 3 4 5 6 7 show ?thesis
    unfolding q_def paris_def dots_def env_def by blast
qed


lemma providedKeys_card:
  "distinct (Object_keys b) \<Longrightarrow>
   length (providedKeys b) = card (set (Object_keys b) \<inter> set validKeys)"
proof -
  assume d: "distinct (Object_keys b)"
  then have "distinct (providedKeys b)" by (simp add: providedKeys_def)
  then have "length (providedKeys b) = card (set (providedKeys b))"
    by (simp add: distinct_card)
  also have "set (providedKeys b) = set (Object_keys b) \<inter> set validKeys"
    by (auto simp: providedKeys_def)
  finally show ?thesis .
qed

lemma get_single: "get [(key, v)] key = v"
  by (simp add: get_def)

lemma run_single: "run e key [(key, get b key)] = run e key b"
  by (simp add: run_def get_single)

lemma providedKeys_single:
  "key \<in> set validKeys \<Longrightarrow> providedKeys [(key, v)] = [key]"
  by (simp add: providedKeys_def Object_keys_def)

lemma bfhl_ignores_other_keys:
  assumes "providedKeys b = [key]"
  shows "bfhl e b = bfhl e [(key, get b key)]"
proof -
  have "key \<in> set (providedKeys b)" using assms by simp
  then have "key \<in> set validKeys" by (simp add: providedKeys_def)
  then have "providedKeys [(key, get b key)] = [key]" by (rule providedKeys_single)
  then show ?thesis using assms by (simp add: bfhl_single run_single)
qed

lemma bfhl_none:
  "providedKeys b = [] \<Longrightarrow>
   bfhl e b = (0, failure e ''Request must contain exactly one of: fibonacci, prime, lcm, hcf, AI'')"
  by (simp add: bfhl_def)

lemma bfhl_multiple:
  "1 < length (providedKeys b) \<Longrightarrow>
   bfhl e b = (0, failure e ''Request must contain exactly one key, found multiple'')"
  by (cases "providedKeys b" rule: remdups_adj.cases) (simp_all add: bfhl_def)

text \<open>
  C2. For a body that is a JSON object, the number of provided keys is the size of the
  intersection of its keys with the five recognized ones. When it is zero or more than
  one, the response is a failure with status 400 and a message, and the service has not
  been used: the response is fixed before any operation runs. When exactly one key is
  recognized, the other keys are ignored: the handler answers as on the body that holds
  only that key.
\<close>

theorem bfhl_validation:
  assumes "distinct (Object_keys b)"
  shows "length (providedKeys b) = card (set (Object_keys b) \<inter> set validKeys)
   \<and> set validKeys = {''fibonacci'', ''prime'', ''lcm'', ''hcf'', ''AI''}
   \<and> (card (set (Object_keys b) \<inter> set validKeys) = 0 \<longrightarrow>
        bfhl e b = (0, failure e ''Request must contain exactly one of: fibonacci, prime, lcm, hcf, AI''))
   \<and> (1 < card (set (Object_keys b) \<inter> set validKeys) \<longrightarrow>
        bfhl e b = (0, failure e ''Request must contain exactly one key, found multiple''))
   \<and> status (failure e msg) = 400 \<and> \<not> is_success (failure e msg)
   \<and> error (failure e msg) = Some msg \<and> data (failure e msg) = None
   \<and> (set (Object_keys b) \<inter> set validKeys = {key} \<longrightarrow>
        providedKeys b = [key] \<and> bfhl e b = bfhl e [(key, get b key)])"
proof (intro conjI impI)
  note card = providedKeys_card [OF assms]
  show "length (providedKeys b) = card (set (Object_keys b) \<inter> set validKeys)"
    by (rule card)
  show "set validKeys = {''fibonacci'', ''prime'', ''lcm'', ''hcf'', ''AI''}"
    by (simp add: validKeys_def)
  show "bfhl e b = (0, failure e ''Request must contain exactly one of: fibonacci, prime, lcm, hcf, AI'')"
    if "card (set (Object_keys b) \<inter> set validKeys) = 0"
    using that card by (intro bfhl_none) simp
  show "bfhl e b = (0, failure e ''Request must contain exactly one key, found multiple'')"
    if "1 < card (set (Object_keys b) \<inter> set validKeys)"
    using that card by (intro bfhl_multiple) simp
  show "status (failure e msg) = 400" "\<not> is_success (failure e msg)"
    "error (failure e msg) = Some msg" "data (failure e msg) = None"
    by (simp_all add: failure_def)
  assume one: "set (Object_keys b) \<inter> set validKeys = {key}"
  then have "length (providedKeys b) = 1" using card by simp
  then obtain k where k: "providedKeys b = [k]"
    by (cases "providedKeys b") auto
  then have "set (providedKeys b) = {k}" by simp
  moreover have "set (providedKeys b) = set (Object_keys b) \<inter> set validKeys"
    by (auto simp: providedKeys_def)
  ultimately have "k = key" using one by auto
  with k show pk: "providedKeys b = [key]" by simp
  then show "bfhl e b = bfhl e [(key, get b key)]"
    by (rule bfhl_ignores_other_keys)
qed


theorem bfhl_validation_witness:
  "bfhl (sample_env refuses) []
     = (0, failure (sample_env refuses)
             ''Request must contain exactly one of: fibonacci, prime, lcm, hcf, AI'')
   \<and> bfhl (sample_env refuses) [(''fibonacci'', jint 5), (''prime'', JArr [jint 2, jint 3])]
     = (0, failure (sample_env refuses) ''Request must contain exactly one key, found multiple'')
   \<and> bfhl (sample_env refuses) [(''id'', JNull), (''fibonacci'', jint 5), (''x'', JBool True)]
     = bfhl (sample_env refuses) [(''fibonacci'', jint 5)]
   \<and> status (failure (sample_env refuses) ''no'') = 400"
proof -
  define env where "env = sample_env refuses"
  define b0 :: body where "b0 = []"
  define b2 where "b2 = [(''fibonacci'', jint 5), (''prime'', JArr [jint 2, jint 3])]"
  define b1 where "b1 = [(''id'', JNull), (''fibonacci'', jint 5), (''x'', JBool True)]"
  have d: "distinct (Object_keys b0)" "distinct (Object_keys b2)" "distinct (Object_keys b1)"
    by (simp_all add: Object_keys_def b0_def b2_def b1_def)
  have p: "providedKeys b0 = []" "providedKeys b2 = [''fibonacci'', ''prime'']"
      "providedKeys b1 = [''fibonacci'']"
    by (simp_all add: providedKeys_def Object_keys_def validKeys_def b0_def b2_def b1_def)
  have c0: "card (set (Object_keys b0) \<inter> set validKeys) = 0"
    using bfhl_validation [OF d(1), THEN conjunct1] p(1) by simp
  have c2: "1 < card (set (Object_keys b2) \<inter> set validKeys)"
    using bfhl_validation [OF d(2), THEN conjunct1] p(2) by simp
  have "set (providedKeys b1) = set (Object_keys b1) \<inter> set validKeys"
    by (auto simp: providedKeys_def)
  then have c1: "set (Object_keys b1) \<inter> set validKeys = {''fibonacci''}"
    by (simp add: p(3))
  have g: "get b1 ''fibonacci'' = jint 5"
    by (simp add: get_def b1_def)
  have 0: "bfhl env b0
      = (0, failure env ''Request must contain exactly one of: fibonacci, prime, lcm, hcf, AI'')"
    using bfhl_validation [OF d(1), of env] c0 by blast
  have 2: "bfhl env b2 = (0, failure env ''Request must contain exactly one key, found multiple'')"
    using bfhl_validation [OF d(2), of env] c2 by blast
  have "bfhl env b1 = bfhl env [(''fibonacci'', get b1 ''fibonacci'')]"
    using bfhl_validation [OF d(3), of env _ "''fibonacci''"] c1 by blast
  then have 1: "bfhl env b1 = bfhl env [(''fibonacci'', jint 5)]"
    by (simp only: g)
  have 3: "status (failure env ''no'') = 400"
    using bfhl_validation [OF d(1), of env "''no''"] by blast
  from 0 2 1 3 show ?thesis
    unfolding env_def b0_def b1_def b2_def by blast
qed

lemma bfhl_shape:
  "\<exists>c. (\<exists>m. bfhl e b = (c, failure e m)) \<or> (\<exists>d. bfhl e b = (c, success e d))"
proof (cases "providedKeys b" rule: remdups_adj.cases)
  case 1
  then show ?thesis by (auto simp: bfhl_def)
next
  case (2 key)
  show ?thesis
  proof (cases "run e key b")
    case None
    with 2 show ?thesis by (auto simp: bfhl_def)
  next
    case (Some p)
    obtain c res where p: "p = (c, res)" by (cases p)
    with 2 Some show ?thesis by (cases res) (auto simp: bfhl_def)
  qed
next
  case (3 k1 k2 ks)
  then show ?thesis by (auto simp: bfhl_def)
qed

lemma run_valid:
  "key \<in> set validKeys \<Longrightarrow> \<exists>c res. run e key b = Some (c, res)"
  by (cases "getAIResponse (generateContent e) (get b ''AI'')") (auto simp: run_def validKeys_set)

text \<open>
  C3. Every response of the handler carries the configured \<^verbatim>\<open>OFFICIAL_EMAIL\<close>, and is
  either a success (status 200, \<open>is_success\<close> true, data and no error) or a failure (status
  400, \<open>is_success\<close> false, an error message and no data). With one recognized key the
  operation of that key runs: what it throws is returned as a failure carrying its message,
  what it returns is returned as the data of a success.
\<close>

theorem bfhl_responses:
  "official_email (snd (bfhl e b)) = OFFICIAL_EMAIL e
   \<and> ((status (snd (bfhl e b)) = 200 \<and> is_success (snd (bfhl e b))
         \<and> error (snd (bfhl e b)) = None \<and> (\<exists>d. data (snd (bfhl e b)) = Some d))
       \<or> (status (snd (bfhl e b)) = 400 \<and> \<not> is_success (snd (bfhl e b))
         \<and> data (snd (bfhl e b)) = None \<and> (\<exists>m. error (snd (bfhl e b)) = Some m)))
   \<and> (providedKeys b = [key] \<longrightarrow>
         (\<exists>c res. run e key b = Some (c, res))
       \<and> (\<forall>c err. run e key b = Some (c, Inl err) \<longrightarrow> bfhl e b = (c, failure e (message err)))
       \<and> (\<forall>c d. run e key b = Some (c, Inr d) \<longrightarrow> bfhl e b = (c, success e d)))
   \<and> run e ''fibonacci'' b = Some (0, generateFibonacci (get b ''fibonacci''))
   \<and> run e ''prime'' b = Some (0, filterPrimes (get b ''prime''))
   \<and> run e ''lcm'' b = Some (0, calculateLCM (toNumber e) (get b ''lcm''))
   \<and> run e ''hcf'' b = Some (0, calculateHCF (toNumber e) (get b ''hcf''))
   \<and> run e ''AI'' b = Some (getAIResponse (generateContent e) (get b ''AI''))
   \<and> success e d = \<lparr>status = 200, is_success = True, official_email = OFFICIAL_EMAIL e,
                      data = Some d, error = None\<rparr>
   \<and> failure e msg = \<lparr>status = 400, is_success = False, official_email = OFFICIAL_EMAIL e,
                        data = None, error = Some msg\<rparr>"
proof (intro conjI impI allI)
  from bfhl_shape [of e b] obtain c where
    c: "(\<exists>m. bfhl e b = (c, failure e m)) \<or> (\<exists>d. bfhl e b = (c, success e d))" ..
  then show "official_email (snd (bfhl e b)) = OFFICIAL_EMAIL e"
    by (auto simp: failure_def success_def)
  from c show "(status (snd (bfhl e b)) = 200 \<and> is_success (snd (bfhl e b))
         \<and> error (snd (bfhl e b)) = None \<and> (\<exists>d. data (snd (bfhl e b)) = Some d))
       \<or> (status (snd (bfhl e b)) = 400 \<and> \<not> is_success (snd (bfhl e b))
         \<and> data (snd (bfhl e b)) = None \<and> (\<exists>m. error (snd (bfhl e b)) = Some m))"
    by (auto simp: failure_def success_def)
  show "run e ''fibonacci'' b = Some (0, generateFibonacci (get b ''fibonacci''))"
    "run e ''prime'' b = Some (0, filterPrimes (get b ''prime''))"
    "run e ''lcm'' b = Some (0, calculateLCM (toNumber e) (get b ''lcm''))"
    "run e ''hcf'' b = Some (0, calculateHCF (toNumber e) (get b ''hcf''))"
    "run e ''AI'' b = Some (getAIResponse (generateContent e) (get b ''AI''))"
    by (simp_all add: run_def)
  show "success e d = \<lparr>status = 200, is_success = True, official_email = OFFICIAL_EMAIL e,
                      data = Some d, error = None\<rparr>"
    by (rule success_def)
  show "failure e msg = \<lparr>status = 400, is_success = False, official_email = OFFICIAL_EMAIL e,
                        data = None, error = Some msg\<rparr>"
    by (rule failure_def)
next
  assume k: "providedKeys b = [key]"
  then have "key \<in> set (providedKeys b)" by simp
  then have "key \<in> set validKeys" by (simp add: providedKeys_def)
  then show "\<exists>c res. run e key b = Some (c, res)" by (rule run_valid)
  show "bfhl e b = (c, failure e (message err))" if "run e key b = Some (c, Inl err)" for c err
    using that k by (simp add: bfhl_single)
  show "bfhl e b = (c, success e d)" if "run e key b = Some (c, Inr d)" for c d
    using that k by (simp add: bfhl_single)
qed

theorem bfhl_responses_witness:
  "bfhl (sample_env refuses) [(''fibonacci'', jint 5)]
     = (0, success (sample_env refuses) (JArr [jint 0, jint 1, jint 1, jint 2, jint 3]))
   \<and> bfhl (sample_env refuses) [(''hcf'', JArr [])]
     = (0, failure (sample_env refuses) ''Input must be a non-empty array'')
   \<and> official_email (snd (bfhl (sample_env refuses) [(''hcf'', JArr [])]))
     = Some ''someone@example.com''"
proof -
  define env where "env = sample_env refuses"
  define bf where "bf = [(''fibonacci'', jint 5)]"
  define bh where "bh = [(''hcf'', JArr [])]"
  have p: "providedKeys bf = [''fibonacci'']" "providedKeys bh = [''hcf'']"
    by (simp_all add: providedKeys_def Object_keys_def validKeys_def bf_def bh_def)
  have g: "get bf ''fibonacci'' = jint 5" "get bh ''hcf'' = JArr []"
    by (simp_all add: get_def bf_def bh_def)
  have h: "calculateHCF (toNumber env) (JArr []) = Inl (Error ''Input must be a non-empty array'')"
    by (simp add: calculateHCF_def)
  note f = bfhl_responses [of env bf "''fibonacci''"]
  from f have "run env ''fibonacci'' bf = Some (0, generateFibonacci (get bf ''fibonacci''))"
    by blast
  then have rf: "run env ''fibonacci'' bf = Some (0, Inr (JArr [jint 0, jint 1, jint 1, jint 2, jint 3]))"
    by (simp only: g generateFibonacci_5)
  from f p(1) have "\<forall>c d. run env ''fibonacci'' bf = Some (c, Inr d) \<longrightarrow> bfhl env bf = (c, success env d)"
    by blast
  with rf have 1: "bfhl env bf = (0, success env (JArr [jint 0, jint 1, jint 1, jint 2, jint 3]))"
    by blast
  note f' = bfhl_responses [of env bh "''hcf''"]
  from f' have "run env ''hcf'' bh = Some (0, calculateHCF (toNumber env) (get bh ''hcf''))"
    by blast
  then have rh: "run env ''hcf'' bh = Some (0, Inl (Error ''Input must be a non-empty array''))"
    by (simp only: g h)
  from f' p(2) have "\<forall>c err. run env ''hcf'' bh = Some (c, Inl err) \<longrightarrow> bfhl env bh = (c, failure env (message err))"
    by blast
  with rh have "bfhl env bh = (0, failure env (message (Error ''Input must be a non-empty array'')))"
    by blast
  then have 2: "bfhl env bh = (0, failure env ''Input must be a non-empty array'')"
    by simp
  from f' have "official_email (snd (bfhl env bh)) = OFFICIAL_EMAIL env"
    by blast
  then have 3: "official_email (snd (bfhl env bh)) = Some ''someone@example.com''"
    by (simp add: env_def sample_env_def)
  from 1 2 3 show ?thesis
    unfolding env_def bf_def bh_def by blast
qed

end
